theory Spec2Isabelle
  imports Main "HOL-Library.Word" "HOL-Library.Signed_Division" "HOL-Library.AList"
begin

section \<open>Simple LRU buffering for transaction status logfiles (slru.c)\<close>

text \<open>
  The model follows one backend through the functions of slru.c. Shared memory, the
  segment directory, the locks this backend holds and the static error variables are
  fields of one state that every function takes and returns. No other backend runs in
  between: a lock that this backend does not hold is free, and shared memory is the same
  when the control lock is taken again as it was when it was released.
\<close>

subsection \<open>C integers\<close>

type_synonym int32 = "32 word"
type_synonym byte = "8 word"

text \<open>C division and remainder on \<open>int\<close> truncate towards zero.\<close>

definition c_div :: "int32 \<Rightarrow> int32 \<Rightarrow> int32" where
  "c_div a b = word_of_int (sint a sdiv sint b)"

definition c_mod :: "int32 \<Rightarrow> int32 \<Rightarrow> int32" where
  "c_mod a b = word_of_int (sint a smod sint b)"

definition SLRU_PAGES_PER_SEGMENT :: int32 where
  "SLRU_PAGES_PER_SEGMENT = 32"

definition MAX_FLUSH_BUFFERS :: nat where
  "MAX_FLUSH_BUFFERS = 16"

text \<open>
  Modelled from the spec: \<open>BLCKSZ\<close> comes from a configuration header outside src/; the
  spec's scenarios take a page of 8192 bytes.
\<close>

definition BLCKSZ :: nat where
  "BLCKSZ = 8192"

definition ENOENT :: int where
  "ENOENT = 2"

definition EINVAL :: int where
  "EINVAL = 22"

subsection \<open>Data\<close>

text \<open>The page states of slru.h, in its order.\<close>

datatype SlruPageStatus =
  SLRU_PAGE_EMPTY
  | SLRU_PAGE_READ_IN_PROGRESS
  | SLRU_PAGE_VALID
  | SLRU_PAGE_WRITE_IN_PROGRESS

datatype SlruErrorCause =
  SLRU_OPEN_FAILED
  | SLRU_SEEK_FAILED
  | SLRU_READ_FAILED
  | SLRU_WRITE_FAILED
  | SLRU_FSYNC_FAILED
  | SLRU_CLOSE_FAILED

datatype LWLockMode = LW_EXCLUSIVE | LW_SHARED

text \<open>
  Modelled from the spec: \<open>XLogRecPtr\<close>, \<open>XLByteLT\<close> and \<open>XLogRecPtrIsInvalid\<close> are declared
  outside src/. The spec speaks of the maximum LSN of a page and of that maximum being
  non-zero, so an LSN is a natural number and the invalid LSN is 0.
\<close>

type_synonym XLogRecPtr = nat

type_synonym TransactionId = "32 word"

text \<open>
  \<open>SlruSharedData\<close>: the arrays live in shared memory and are indexed by slot number;
  each is a map from the index to the entry. Only indices below \<open>num_slots\<close> belong to
  the pool.
\<close>

record SlruSharedData =
  num_slots :: nat
  page_buffer :: "nat \<Rightarrow> byte list"
  page_status :: "nat \<Rightarrow> SlruPageStatus"
  page_dirty :: "nat \<Rightarrow> bool"
  page_number :: "nat \<Rightarrow> int32"
  page_lru_count :: "nat \<Rightarrow> int32"
  lsn_groups_per_page :: nat
  group_lsn :: "nat \<Rightarrow> XLogRecPtr"
  cur_lru_count :: int32
  latest_page_number :: int32

text \<open>\<open>SlruCtlData\<close> without the pointer to shared memory, which the state carries.\<close>

record SlruCtlData =
  do_fsync :: bool
  PagePrecedes :: "int32 \<Rightarrow> int32 \<Rightarrow> bool"
  Dir :: string

record MirroredFlatFileOpen =
  isActive :: bool
  fileName :: string

record SlruFlushData =
  num_files :: nat
  mirroredOpens :: "nat \<Rightarrow> MirroredFlatFileOpen"
  segno :: "nat \<Rightarrow> int32"

datatype log_line =
  LOG_reading_as_zeroes string
  | LOG_apparent_wraparound string
  | DEBUG2_removing_file string

text \<open>
  The state of the run. \<open>directory\<close> lists the files of the pool's directory with
  their contents, in the order \<open>ReadDir\<close> returns them. \<open>io_faults\<close> is the plan of the operating system's answers: each
  system call takes the head, \<open>Some e\<close> makes the call fail with errno \<open>e\<close>, \<open>None\<close> (and
  an empty plan) lets it go through.
\<close>

record slru_world =
  shared :: SlruSharedData
  ControlLock :: "LWLockMode option"
  buffer_locks :: "nat \<Rightarrow> LWLockMode option"
  directory :: "(string \<times> byte list) list"
  InRecovery :: bool
  errno :: int
  slru_errcause :: SlruErrorCause
  slru_errno :: int
  io_faults :: "int option list"
  server_log :: "log_line list"
  wal_flushed :: "XLogRecPtr list"

text \<open>What \<open>SlruReportIOError\<close> raises: the saved cause and errno, the page and the xid.\<close>

datatype slru_error =
  SlruIOError SlruErrorCause int int32 TransactionId
  | SlruOutOfBounds

subsection \<open>Victim selection: the scan of SlruSelectLRUPage\<close>

definition SlruFindPage :: "SlruSharedData \<Rightarrow> int32 \<Rightarrow> nat option" where
  "SlruFindPage sh pageno =
     find (\<lambda>slotno. page_number sh slotno = pageno \<and> page_status sh slotno \<noteq> SLRU_PAGE_EMPTY)
       [0..<num_slots sh]"

text \<open>
  The body of the second loop of \<open>SlruSelectLRUPage\<close> for a slot that is not EMPTY:
  the signed difference, its repair, and the comparison with the best slot so far
  (\<open>bestslot\<close>, \<open>best_delta\<close>, \<open>best_page_number\<close>).
\<close>

definition SlruSelectLRUPage_step ::
  "SlruCtlData \<Rightarrow> int32 \<Rightarrow> nat \<Rightarrow> nat \<times> int32 \<times> int32 \<Rightarrow> SlruSharedData
     \<Rightarrow> (nat \<times> int32 \<times> int32) \<times> SlruSharedData" where
  "SlruSelectLRUPage_step ctl cur_count slotno best sh =
     (case best of (bestslot, best_delta, best_page_number) \<Rightarrow>
        let this_delta0 = cur_count - page_lru_count sh slotno;
            sh' = (if this_delta0 <s 0
                   then sh\<lparr>page_lru_count := (page_lru_count sh)(slotno := cur_count)\<rparr>
                   else sh);
            this_delta = (if this_delta0 <s 0 then 0 else this_delta0);
            this_page_number = page_number sh' slotno
        in if (best_delta <s this_delta \<or>
               (this_delta = best_delta \<and> PagePrecedes ctl this_page_number best_page_number)) \<and>
              this_page_number \<noteq> latest_page_number sh'
           then ((slotno, this_delta, this_page_number), sh')
           else ((bestslot, best_delta, best_page_number), sh'))"

text \<open>
  The loop over the slots still to visit. The result is the EMPTY slot that ended the
  loop, if any, then the best slot, and shared memory with the repaired counts.
\<close>

fun SlruSelectLRUPage_scan ::
  "SlruCtlData \<Rightarrow> int32 \<Rightarrow> nat list \<Rightarrow> nat \<times> int32 \<times> int32 \<Rightarrow> SlruSharedData
     \<Rightarrow> nat option \<times> (nat \<times> int32 \<times> int32) \<times> SlruSharedData" where
  "SlruSelectLRUPage_scan ctl cur_count [] best sh = (None, best, sh)"
| "SlruSelectLRUPage_scan ctl cur_count (slotno # rest) best sh =
     (if page_status sh slotno = SLRU_PAGE_EMPTY then (Some slotno, best, sh)
      else (case SlruSelectLRUPage_step ctl cur_count slotno best sh of
              (best', sh') \<Rightarrow> SlruSelectLRUPage_scan ctl cur_count rest best' sh'))"

text \<open>
  One pass: \<open>cur_count = (shared->cur_lru_count)++\<close>, then the scan from
  \<open>best_delta = -1\<close>, \<open>bestslot = 0\<close>, \<open>best_page_number = 0\<close>.
\<close>

definition SlruSelectLRUPage_pass ::
  "SlruCtlData \<Rightarrow> SlruSharedData \<Rightarrow> nat option \<times> (nat \<times> int32 \<times> int32) \<times> SlruSharedData" where
  "SlruSelectLRUPage_pass ctl sh =
     SlruSelectLRUPage_scan ctl (cur_lru_count sh) [0..<num_slots sh] (0, - 1, 0)
       (sh\<lparr>cur_lru_count := cur_lru_count sh + 1\<rparr>)"

subsection \<open>Locks\<close>

definition LWLockAcquire_ControlLock :: "LWLockMode \<Rightarrow> slru_world \<Rightarrow> slru_world" where
  "LWLockAcquire_ControlLock mode w = w\<lparr>ControlLock := Some mode\<rparr>"

definition LWLockRelease_ControlLock :: "slru_world \<Rightarrow> slru_world" where
  "LWLockRelease_ControlLock w = w\<lparr>ControlLock := None\<rparr>"

definition LWLockAcquire_buffer :: "nat \<Rightarrow> LWLockMode \<Rightarrow> slru_world \<Rightarrow> slru_world" where
  "LWLockAcquire_buffer slotno mode w = w\<lparr>buffer_locks := (buffer_locks w)(slotno := Some mode)\<rparr>"

definition LWLockRelease_buffer :: "nat \<Rightarrow> slru_world \<Rightarrow> slru_world" where
  "LWLockRelease_buffer slotno w = w\<lparr>buffer_locks := (buffer_locks w)(slotno := None)\<rparr>"

definition LWLockConditionalAcquire_buffer ::
  "nat \<Rightarrow> LWLockMode \<Rightarrow> slru_world \<Rightarrow> bool \<times> slru_world" where
  "LWLockConditionalAcquire_buffer slotno mode w =
     (if buffer_locks w slotno = None then (True, LWLockAcquire_buffer slotno mode w)
      else (False, w))"

subsection \<open>Shared-memory assignments\<close>

definition set_page_status :: "nat \<Rightarrow> SlruPageStatus \<Rightarrow> slru_world \<Rightarrow> slru_world" where
  "set_page_status slotno v w =
     w\<lparr>shared := (shared w)\<lparr>page_status := (page_status (shared w))(slotno := v)\<rparr>\<rparr>"

definition set_page_dirty :: "nat \<Rightarrow> bool \<Rightarrow> slru_world \<Rightarrow> slru_world" where
  "set_page_dirty slotno v w =
     w\<lparr>shared := (shared w)\<lparr>page_dirty := (page_dirty (shared w))(slotno := v)\<rparr>\<rparr>"

definition set_page_number :: "nat \<Rightarrow> int32 \<Rightarrow> slru_world \<Rightarrow> slru_world" where
  "set_page_number slotno v w =
     w\<lparr>shared := (shared w)\<lparr>page_number := (page_number (shared w))(slotno := v)\<rparr>\<rparr>"

definition set_page_buffer :: "nat \<Rightarrow> byte list \<Rightarrow> slru_world \<Rightarrow> slru_world" where
  "set_page_buffer slotno v w =
     w\<lparr>shared := (shared w)\<lparr>page_buffer := (page_buffer (shared w))(slotno := v)\<rparr>\<rparr>"

text \<open>The macro \<open>SlruRecentlyUsed\<close>.\<close>

definition SlruRecentlyUsed :: "nat \<Rightarrow> slru_world \<Rightarrow> slru_world" where
  "SlruRecentlyUsed slotno w =
     (let sh = shared w; new_lru_count = cur_lru_count sh
      in if new_lru_count \<noteq> page_lru_count sh slotno
         then w\<lparr>shared := sh\<lparr>cur_lru_count := new_lru_count + 1,
                               page_lru_count := (page_lru_count sh)(slotno := new_lru_count + 1)\<rparr>\<rparr>
         else w)"

definition SimpleLruZeroLSNs :: "nat \<Rightarrow> slru_world \<Rightarrow> slru_world" where
  "SimpleLruZeroLSNs slotno w =
     (let sh = shared w; n = lsn_groups_per_page sh
      in if 0 < n
         then w\<lparr>shared := sh\<lparr>group_lsn :=
                  (\<lambda>i. if slotno * n \<le> i \<and> i < slotno * n + n then 0 else group_lsn sh i)\<rparr>\<rparr>
         else w)"

subsection \<open>Waiting for I/O\<close>

definition SimpleLruWaitIO :: "nat \<Rightarrow> slru_world \<Rightarrow> slru_world" where
  "SimpleLruWaitIO slotno w =
     (let w1 = LWLockRelease_ControlLock w;
          w2 = LWLockAcquire_buffer slotno LW_SHARED w1;
          w3 = LWLockRelease_buffer slotno w2;
          w4 = LWLockAcquire_ControlLock LW_EXCLUSIVE w3
      in if page_status (shared w4) slotno = SLRU_PAGE_READ_IN_PROGRESS \<or>
            page_status (shared w4) slotno = SLRU_PAGE_WRITE_IN_PROGRESS
         then (case LWLockConditionalAcquire_buffer slotno LW_SHARED w4 of
                 (True, w5) \<Rightarrow>
                   LWLockRelease_buffer slotno
                     (if page_status (shared w5) slotno = SLRU_PAGE_READ_IN_PROGRESS
                      then set_page_status slotno SLRU_PAGE_EMPTY w5
                      else set_page_dirty slotno True (set_page_status slotno SLRU_PAGE_VALID w5))
               | (False, w5) \<Rightarrow> w5)
         else w4)"

subsection \<open>Segment files and system calls\<close>

definition take_fault :: "slru_world \<Rightarrow> int option \<times> slru_world" where
  "take_fault w = (case io_faults w of [] \<Rightarrow> (None, w) | f # fs \<Rightarrow> (f, w\<lparr>io_faults := fs\<rparr>))"

definition hex_char :: "nat \<Rightarrow> char" where
  "hex_char d = ''0123456789ABCDEF'' ! d"

text \<open>\<open>snprintf(path, MAXPGPATH, "%04X", seg)\<close>: the unsigned value in upper-case
  hexadecimal, at least four digits.\<close>

definition SlruSimpleFileName :: "int32 \<Rightarrow> string" where
  "SlruSimpleFileName seg =
     (let ds = map (\<lambda>k. hex_char (unat seg div 16 ^ k mod 16)) (rev [0..<8])
      in drop (length (takeWhile (\<lambda>c. c = CHR ''0'') (take 4 ds))) ds)"

text \<open>A write of \<open>buf\<close> at byte \<open>off\<close>: a file shorter than \<open>off\<close> is extended with zero bytes.\<close>

definition file_write_at :: "byte list \<Rightarrow> nat \<Rightarrow> byte list \<Rightarrow> byte list" where
  "file_write_at buf off content =
     take off (content @ replicate (off - length content) 0) @ buf @ drop (off + length buf) content"

definition BasicOpenFile :: "string \<Rightarrow> slru_world \<Rightarrow> bool \<times> slru_world" where
  "BasicOpenFile path w =
     (case take_fault w of
        (Some e, w') \<Rightarrow> (False, w'\<lparr>errno := e\<rparr>)
      | (None, w') \<Rightarrow>
          if map_of (directory w') path = None then (False, w'\<lparr>errno := ENOENT\<rparr>) else (True, w'))"

definition c_lseek :: "int32 \<Rightarrow> slru_world \<Rightarrow> bool \<times> slru_world" where
  "c_lseek offset w =
     (case take_fault w of
        (Some e, w') \<Rightarrow> (False, w'\<lparr>errno := e\<rparr>)
      | (None, w') \<Rightarrow> if offset <s 0 then (False, w'\<lparr>errno := EINVAL\<rparr>) else (True, w'))"

text \<open>\<open>read(fd, buf, BLCKSZ)\<close>: \<open>None\<close> is the return value -1, otherwise the bytes read.\<close>

definition c_read :: "string \<Rightarrow> int32 \<Rightarrow> slru_world \<Rightarrow> byte list option \<times> slru_world" where
  "c_read path offset w =
     (case take_fault w of
        (Some e, w') \<Rightarrow> (None, w'\<lparr>errno := e\<rparr>)
      | (None, w') \<Rightarrow>
          (case map_of (directory w') path of
             None \<Rightarrow> (Some [], w')
           | Some content \<Rightarrow> (Some (take BLCKSZ (drop (unat offset) content)), w')))"

definition c_close :: "slru_world \<Rightarrow> bool \<times> slru_world" where
  "c_close w =
     (case take_fault w of
        (Some e, w') \<Rightarrow> (False, w'\<lparr>errno := e\<rparr>)
      | (None, w') \<Rightarrow> (True, w'))"

text \<open>
  Modelled from the spec: the mirrored-file adapter (\<open>MirroredFlatFile_Open\<close>, \<open>_SeekSet\<close>,
  \<open>_Write\<close>, \<open>_Flush\<close>, \<open>_Close\<close>, \<open>_IsActive\<close>, \<open>_Drop\<close>) is outside src/. The spec gives
  it as open, seek_set, write(offset, buf, len), flush, close and drop(dir, name), with
  write-through on the primary, flush standing for fsync and drop unlinking the file.
  Here open creates a missing file (the caller passes \<open>O_CREAT\<close>), and open, seek, write
  and flush fail when the operating system does.
\<close>

definition MirroredFlatFile_Open :: "string \<Rightarrow> slru_world \<Rightarrow> bool \<times> MirroredFlatFileOpen \<times> slru_world" where
  "MirroredFlatFile_Open name w =
     (case take_fault w of
        (Some e, w') \<Rightarrow> (False, \<lparr>isActive = False, fileName = name\<rparr>, w'\<lparr>errno := e\<rparr>)
      | (None, w') \<Rightarrow>
          (True, \<lparr>isActive = True, fileName = name\<rparr>,
           (if map_of (directory w') name = None
            then w'\<lparr>directory := AList.update name [] (directory w')\<rparr> else w')))"

definition MirroredFlatFile_SeekSet :: "MirroredFlatFileOpen \<Rightarrow> int32 \<Rightarrow> slru_world \<Rightarrow> int32 \<times> slru_world" where
  "MirroredFlatFile_SeekSet mfo offset w =
     (case take_fault w of
        (Some e, w') \<Rightarrow> (- 1, w'\<lparr>errno := e\<rparr>)
      | (None, w') \<Rightarrow> if offset <s 0 then (- 1, w'\<lparr>errno := EINVAL\<rparr>) else (offset, w'))"

definition MirroredFlatFile_Write ::
  "MirroredFlatFileOpen \<Rightarrow> int32 \<Rightarrow> byte list \<Rightarrow> slru_world \<Rightarrow> bool \<times> slru_world" where
  "MirroredFlatFile_Write mfo offset buf w =
     (case take_fault w of
        (Some e, w') \<Rightarrow> (False, w'\<lparr>errno := e\<rparr>)
      | (None, w') \<Rightarrow>
          (True, w'\<lparr>directory := AList.update (fileName mfo)
                     (file_write_at buf (unat offset)
                        (case map_of (directory w') (fileName mfo) of None \<Rightarrow> [] | Some content \<Rightarrow> content))
                     (directory w')\<rparr>))"

definition MirroredFlatFile_Flush :: "MirroredFlatFileOpen \<Rightarrow> slru_world \<Rightarrow> bool \<times> slru_world" where
  "MirroredFlatFile_Flush mfo w =
     (case take_fault w of
        (Some e, w') \<Rightarrow> (False, w'\<lparr>errno := e\<rparr>)
      | (None, w') \<Rightarrow> (True, w'))"

definition MirroredFlatFile_Close :: "MirroredFlatFileOpen \<Rightarrow> MirroredFlatFileOpen" where
  "MirroredFlatFile_Close mfo = mfo\<lparr>isActive := False\<rparr>"

definition MirroredFlatFile_Drop :: "string \<Rightarrow> slru_world \<Rightarrow> slru_world" where
  "MirroredFlatFile_Drop name w = w\<lparr>directory := AList.delete name (directory w)\<rparr>"

subsection \<open>Physical read and write of a page\<close>

definition save_error :: "SlruErrorCause \<Rightarrow> slru_world \<Rightarrow> slru_world" where
  "save_error cause w = w\<lparr>slru_errcause := cause, slru_errno := errno w\<rparr>"

text \<open>
  \<open>SlruPhysicalReadPage\<close>. The path that \<open>SlruFlatFileName\<close> builds names the file
  \<open>SlruSimpleFileName\<close> gives inside the pool's directory, so the directory is keyed by
  the simple name. The result of the \<open>close\<close> on a failure path is ignored, as in the source.
\<close>

definition SlruPhysicalReadPage :: "SlruCtlData \<Rightarrow> int32 \<Rightarrow> nat \<Rightarrow> slru_world \<Rightarrow> bool \<times> slru_world" where
  "SlruPhysicalReadPage ctl pageno slotno w =
     (let seg = c_div pageno SLRU_PAGES_PER_SEGMENT;
          rpageno = c_mod pageno SLRU_PAGES_PER_SEGMENT;
          offset = rpageno * word_of_nat BLCKSZ;
          path = SlruSimpleFileName seg
      in case BasicOpenFile path w of
           (False, w1) \<Rightarrow>
             if errno w1 \<noteq> ENOENT \<or> \<not> InRecovery w1
             then (False, save_error SLRU_OPEN_FAILED w1)
             else (True, set_page_buffer slotno (replicate BLCKSZ 0)
                           (w1\<lparr>server_log := server_log w1 @ [LOG_reading_as_zeroes path]\<rparr>))
         | (True, w1) \<Rightarrow>
             (case c_lseek offset w1 of
                (False, w2) \<Rightarrow> (False, snd (c_close (save_error SLRU_SEEK_FAILED w2)))
              | (True, w2) \<Rightarrow>
                  (case c_read path offset w2 of
                     (None, w3) \<Rightarrow> (False, snd (c_close (save_error SLRU_READ_FAILED w3)))
                   | (Some bytes, w3) \<Rightarrow>
                       let w4 = set_page_buffer slotno
                                  (bytes @ drop (length bytes) (page_buffer (shared w3) slotno)) w3
                       in if length bytes \<noteq> BLCKSZ
                          then (False, snd (c_close (save_error SLRU_READ_FAILED w4)))
                          else (case c_close w4 of
                                  (False, w5) \<Rightarrow> (False, save_error SLRU_CLOSE_FAILED w5)
                                | (True, w5) \<Rightarrow> (True, w5)))))"

text \<open>The largest LSN of the slot's groups, as the loop of \<open>SlruPhysicalWritePage\<close> finds it.\<close>

definition slot_max_lsn :: "SlruSharedData \<Rightarrow> nat \<Rightarrow> XLogRecPtr" where
  "slot_max_lsn sh slotno =
     (let lsnindex = slotno * lsn_groups_per_page sh
      in fold (\<lambda>lsnoff max_lsn.
                 let this_lsn = group_lsn sh (lsnindex + lsnoff)
                 in if max_lsn < this_lsn then this_lsn else max_lsn)
           [1..<lsn_groups_per_page sh] (group_lsn sh lsnindex))"

text \<open>
  The write-WAL-before-data step. \<open>group_lsn\<close> is non-NULL exactly when the pool was made
  with \<open>nlsns > 0\<close>. \<open>XLogFlush\<close> is outside src/; it returns or stops the process with a
  PANIC, and the model follows the runs where it returns, recording the LSN flushed.
\<close>

definition SlruPhysicalWritePage_wal :: "nat \<Rightarrow> slru_world \<Rightarrow> slru_world" where
  "SlruPhysicalWritePage_wal slotno w =
     (if 0 < lsn_groups_per_page (shared w)
      then (let max_lsn = slot_max_lsn (shared w) slotno
            in if max_lsn \<noteq> 0 then w\<lparr>wal_flushed := wal_flushed w @ [max_lsn]\<rparr> else w)
      else w)"

text \<open>
  Seek, write and, for a standalone write, fsync and close. \<open>standalone\<close> is \<open>!fdata\<close> at
  that point of the source. Closing a handle that is not in the flush table leaves no
  trace in the state.
\<close>

definition SlruPhysicalWritePage_io ::
  "SlruCtlData \<Rightarrow> int32 \<Rightarrow> nat \<Rightarrow> MirroredFlatFileOpen \<Rightarrow> bool \<Rightarrow> slru_world \<Rightarrow> bool \<times> slru_world" where
  "SlruPhysicalWritePage_io ctl offset slotno useMirroredOpen standalone w =
     (case MirroredFlatFile_SeekSet useMirroredOpen offset w of
        (pos, w1) \<Rightarrow>
          if pos \<noteq> offset then (False, save_error SLRU_SEEK_FAILED w1)
          else (case MirroredFlatFile_Write useMirroredOpen offset (page_buffer (shared w1) slotno) w1 of
                  (False, w2) \<Rightarrow> (False, save_error SLRU_WRITE_FAILED w2)
                | (True, w2) \<Rightarrow>
                    if standalone \<and> do_fsync ctl
                    then (case MirroredFlatFile_Flush useMirroredOpen w2 of
                            (False, w3) \<Rightarrow> (False, save_error SLRU_FSYNC_FAILED w3)
                          | (True, w3) \<Rightarrow> (True, w3))
                    else (True, w2)))"

definition find_open_segment :: "SlruFlushData \<Rightarrow> int32 \<Rightarrow> MirroredFlatFileOpen option" where
  "find_open_segment fd seg =
     map_option (mirroredOpens fd) (find (\<lambda>i. segno fd i = seg) [0..<num_files fd])"

definition SlruPhysicalWritePage ::
  "SlruCtlData \<Rightarrow> int32 \<Rightarrow> nat \<Rightarrow> SlruFlushData option \<Rightarrow> slru_world
     \<Rightarrow> bool \<times> SlruFlushData option \<times> slru_world" where
  "SlruPhysicalWritePage ctl pageno slotno fdata w =
     (let seg = c_div pageno SLRU_PAGES_PER_SEGMENT;
          rpageno = c_mod pageno SLRU_PAGES_PER_SEGMENT;
          offset = rpageno * word_of_nat BLCKSZ;
          w0 = SlruPhysicalWritePage_wal slotno w;
          existingMirroredOpen = (case fdata of None \<Rightarrow> None | Some fd \<Rightarrow> find_open_segment fd seg)
      in case (case existingMirroredOpen of None \<Rightarrow> None
               | Some mfo \<Rightarrow> if isActive mfo then Some mfo else None) of
           Some mfo \<Rightarrow>
             (case SlruPhysicalWritePage_io ctl offset slotno mfo False w0 of
                (ok, w1) \<Rightarrow> (ok, fdata, w1))
         | None \<Rightarrow>
             (case MirroredFlatFile_Open (SlruSimpleFileName seg) w0 of
                (False, newMirroredOpen, w1) \<Rightarrow> (False, fdata, save_error SLRU_OPEN_FAILED w1)
              | (True, newMirroredOpen, w1) \<Rightarrow>
                  (case fdata of
                     None \<Rightarrow>
                       (case SlruPhysicalWritePage_io ctl offset slotno newMirroredOpen True w1 of
                          (ok, w2) \<Rightarrow> (ok, fdata, w2))
                   | Some fd \<Rightarrow>
                       if num_files fd < MAX_FLUSH_BUFFERS
                       then (case SlruPhysicalWritePage_io ctl offset slotno newMirroredOpen False w1 of
                               (ok, w2) \<Rightarrow>
                                 (ok,
                                  Some (fd\<lparr>mirroredOpens := (mirroredOpens fd)(num_files fd := newMirroredOpen),
                                           segno := (segno fd)(num_files fd := seg),
                                           num_files := num_files fd + 1\<rparr>),
                                  w2))
                       else (case SlruPhysicalWritePage_io ctl offset slotno newMirroredOpen True w1 of
                               (ok, w2) \<Rightarrow> (ok, fdata, w2)))))"

definition SlruReportIOError :: "int32 \<Rightarrow> TransactionId \<Rightarrow> slru_world \<Rightarrow> slru_error" where
  "SlruReportIOError pageno xid w = SlruIOError (slru_errcause w) (slru_errno w) pageno xid"

subsection \<open>SimpleLruWritePage\<close>

text \<open>The loop \<open>while (status == WRITE_IN_PROGRESS && page_number == pageno) SimpleLruWaitIO\<close>.\<close>

function SimpleLruWritePage_wait :: "int32 \<Rightarrow> nat \<Rightarrow> slru_world \<Rightarrow> slru_world" where
  "SimpleLruWritePage_wait pageno slotno w =
     (if page_status (shared w) slotno = SLRU_PAGE_WRITE_IN_PROGRESS \<and>
         page_number (shared w) slotno = pageno
      then SimpleLruWritePage_wait pageno slotno (SimpleLruWaitIO slotno w)
      else w)"
  by pat_completeness auto
termination
  by (relation "measure (\<lambda>(pageno, slotno, w).
        if page_status (shared w) slotno = SLRU_PAGE_WRITE_IN_PROGRESS then 1 else 0)")
     (auto simp: SimpleLruWaitIO_def Let_def LWLockRelease_ControlLock_def LWLockAcquire_buffer_def
        LWLockRelease_buffer_def LWLockAcquire_ControlLock_def LWLockConditionalAcquire_buffer_def
        set_page_status_def set_page_dirty_def)

declare SimpleLruWritePage_wait.simps [simp del]

definition close_flush_files :: "SlruFlushData \<Rightarrow> SlruFlushData" where
  "close_flush_files fd =
     fd\<lparr>mirroredOpens := (\<lambda>i. if i < num_files fd then MirroredFlatFile_Close (mirroredOpens fd i)
                               else mirroredOpens fd i)\<rparr>"

text \<open>
  Mark the slot write-busy and clear the dirty bit, take the buffer lock, release the
  control lock.
\<close>

definition SimpleLruWritePage_begin :: "nat \<Rightarrow> slru_world \<Rightarrow> slru_world" where
  "SimpleLruWritePage_begin slotno w =
     (let w2 = set_page_dirty slotno False (set_page_status slotno SLRU_PAGE_WRITE_IN_PROGRESS w);
          w3 = LWLockAcquire_buffer slotno LW_EXCLUSIVE w2
      in LWLockRelease_ControlLock w3)"

text \<open>\<open>SimpleLruWritePage\<close> after its wait loop.\<close>

definition SimpleLruWritePage_write ::
  "SlruCtlData \<Rightarrow> int32 \<Rightarrow> nat \<Rightarrow> SlruFlushData option \<Rightarrow> slru_world
     \<Rightarrow> (slru_error \<times> slru_world) + (SlruFlushData option \<times> slru_world)" where
  "SimpleLruWritePage_write ctl pageno slotno fdata w1 =
     (if \<not> page_dirty (shared w1) slotno \<or>
         page_status (shared w1) slotno \<noteq> SLRU_PAGE_VALID \<or>
         page_number (shared w1) slotno \<noteq> pageno
      then Inr (fdata, w1)
      else
        case SlruPhysicalWritePage ctl pageno slotno fdata (SimpleLruWritePage_begin slotno w1) of
             (ok, fdata1, w5) \<Rightarrow>
               let fdata2 = (if \<not> ok then map_option close_flush_files fdata1 else fdata1);
                   w6 = LWLockAcquire_ControlLock LW_EXCLUSIVE w5;
                   w7 = (if \<not> ok then set_page_dirty slotno True w6 else w6);
                   w8 = set_page_status slotno SLRU_PAGE_VALID w7;
                   w9 = LWLockRelease_buffer slotno w8
               in if \<not> ok then Inl (SlruReportIOError pageno 0 w9, w9)
                  else Inr (fdata2, w9))"

definition SimpleLruWritePage ::
  "SlruCtlData \<Rightarrow> nat \<Rightarrow> SlruFlushData option \<Rightarrow> slru_world
     \<Rightarrow> (slru_error \<times> slru_world) + (SlruFlushData option \<times> slru_world)" where
  "SimpleLruWritePage ctl slotno fdata w =
     (let pageno = page_number (shared w) slotno
      in SimpleLruWritePage_write ctl pageno slotno fdata (SimpleLruWritePage_wait pageno slotno w))"

subsection \<open>What the I/O routines leave alone\<close>

definition same_memory :: "slru_world \<Rightarrow> slru_world \<Rightarrow> bool" where
  "same_memory w w' \<longleftrightarrow>
     shared w' = shared w \<and> ControlLock w' = ControlLock w \<and> buffer_locks w' = buffer_locks w \<and>
     InRecovery w' = InRecovery w \<and> server_log w' = server_log w"

lemma same_memory_refl [simp]: "same_memory w w"
  by (simp add: same_memory_def)

lemma same_memory_trans: "same_memory w w1 \<Longrightarrow> same_memory w1 w2 \<Longrightarrow> same_memory w w2"
  by (simp add: same_memory_def)

lemma take_fault_same: "take_fault w = (f, w') \<Longrightarrow> same_memory w w'"
  by (auto simp: take_fault_def same_memory_def split: list.splits)

lemma save_error_same [simp]: "same_memory w (save_error c w') = same_memory w w'"
  by (simp add: save_error_def same_memory_def)

lemma errno_same [simp]: "same_memory w (w'\<lparr>errno := e\<rparr>) = same_memory w w'"
  by (simp add: same_memory_def)

lemma directory_same [simp]: "same_memory w (w'\<lparr>directory := d\<rparr>) = same_memory w w'"
  by (simp add: same_memory_def)

lemma wal_same [simp]: "same_memory w (w'\<lparr>wal_flushed := d\<rparr>) = same_memory w w'"
  by (simp add: same_memory_def)

lemma SeekSet_same: "MirroredFlatFile_SeekSet mfo off w = (pos, w') \<Longrightarrow> same_memory w w'"
  unfolding MirroredFlatFile_SeekSet_def
  by (cases "take_fault w") (auto dest: take_fault_same split: option.splits if_splits)

lemma Write_same: "MirroredFlatFile_Write mfo off buf w = (ok, w') \<Longrightarrow> same_memory w w'"
  unfolding MirroredFlatFile_Write_def
  by (cases "take_fault w") (auto dest: take_fault_same split: option.splits if_splits)

lemma Flush_same: "MirroredFlatFile_Flush mfo w = (ok, w') \<Longrightarrow> same_memory w w'"
  unfolding MirroredFlatFile_Flush_def
  by (cases "take_fault w") (auto dest: take_fault_same split: option.splits if_splits)

lemma Open_same: "MirroredFlatFile_Open name w = (ok, mfo, w') \<Longrightarrow> same_memory w w'"
  unfolding MirroredFlatFile_Open_def
  by (cases "take_fault w") (auto dest: take_fault_same split: option.splits if_splits)

lemma io_same:
  assumes "SlruPhysicalWritePage_io ctl offset slotno mfo st w = (ok, w')"
  shows "same_memory w w'"
proof -
  obtain pos w1 where s: "MirroredFlatFile_SeekSet mfo offset w = (pos, w1)"
    by (cases "MirroredFlatFile_SeekSet mfo offset w")
  obtain ok2 w2 where wr: "MirroredFlatFile_Write mfo offset (page_buffer (shared w1) slotno) w1 = (ok2, w2)"
    by (cases "MirroredFlatFile_Write mfo offset (page_buffer (shared w1) slotno) w1")
  obtain ok3 w3 where fl: "MirroredFlatFile_Flush mfo w2 = (ok3, w3)"
    by (cases "MirroredFlatFile_Flush mfo w2")
  note sm = same_memory_trans [OF SeekSet_same [OF s]]
    same_memory_trans [OF SeekSet_same [OF s] Write_same [OF wr]]
    same_memory_trans [OF same_memory_trans [OF SeekSet_same [OF s] Write_same [OF wr]] Flush_same [OF fl]]
  from assms s wr fl sm SeekSet_same [OF s] show ?thesis
    by (auto simp: SlruPhysicalWritePage_io_def split: if_splits bool.splits)
qed

lemma wal_same2: "same_memory w (SlruPhysicalWritePage_wal slotno w)"
  by (simp add: SlruPhysicalWritePage_wal_def Let_def)

lemma PhysicalWrite_same:
  assumes "SlruPhysicalWritePage ctl pageno slotno fdata w = (ok, fdata', w')"
  shows "same_memory w w'"
proof -
  define seg where "seg = c_div pageno SLRU_PAGES_PER_SEGMENT"
  define offset where "offset = c_mod pageno SLRU_PAGES_PER_SEGMENT * word_of_nat BLCKSZ"
  define w0 where "w0 = SlruPhysicalWritePage_wal slotno w"
  have w0: "same_memory w w0" by (simp add: w0_def wal_same2)
  obtain ok1 newOpen w1 where op: "MirroredFlatFile_Open (SlruSimpleFileName seg) w0 = (ok1, newOpen, w1)"
    by (cases "MirroredFlatFile_Open (SlruSimpleFileName seg) w0")
  have w1: "same_memory w w1" using same_memory_trans [OF w0 Open_same [OF op]] .
  have io0: "SlruPhysicalWritePage_io ctl offset slotno m st w0 = (k, v) \<Longrightarrow> same_memory w v" for m st k v
    using same_memory_trans [OF w0 io_same] by blast
  have io1: "SlruPhysicalWritePage_io ctl offset slotno m st w1 = (k, v) \<Longrightarrow> same_memory w v" for m st k v
    using same_memory_trans [OF w1 io_same] by blast
  from assms op w1 show ?thesis
    unfolding SlruPhysicalWritePage_def Let_def seg_def [symmetric] offset_def [symmetric] w0_def [symmetric]
    by (auto split: option.splits prod.splits bool.splits if_splits dest: io0 io1)
qed

lemma WaitIO_shared:
  "shared (SimpleLruWaitIO slotno w) =
     (if page_status (shared w) slotno = SLRU_PAGE_READ_IN_PROGRESS
      then (shared w)\<lparr>page_status := (page_status (shared w))(slotno := SLRU_PAGE_EMPTY)\<rparr>
      else if page_status (shared w) slotno = SLRU_PAGE_WRITE_IN_PROGRESS
      then (shared w)\<lparr>page_status := (page_status (shared w))(slotno := SLRU_PAGE_VALID),
                      page_dirty := (page_dirty (shared w))(slotno := True)\<rparr>
      else shared w)"
  by (simp add: SimpleLruWaitIO_def Let_def LWLockRelease_ControlLock_def LWLockAcquire_buffer_def
        LWLockRelease_buffer_def LWLockAcquire_ControlLock_def LWLockConditionalAcquire_buffer_def
        set_page_status_def set_page_dirty_def)

lemma WaitIO_other:
  "directory (SimpleLruWaitIO slotno w) = directory w"
  "io_faults (SimpleLruWaitIO slotno w) = io_faults w"
  "InRecovery (SimpleLruWaitIO slotno w) = InRecovery w"
  "ControlLock (SimpleLruWaitIO slotno w) = Some LW_EXCLUSIVE"
  by (simp_all add: SimpleLruWaitIO_def Let_def LWLockRelease_ControlLock_def LWLockAcquire_buffer_def
        LWLockRelease_buffer_def LWLockAcquire_ControlLock_def LWLockConditionalAcquire_buffer_def
        set_page_status_def set_page_dirty_def)

lemma WritePage_wait_eq:
  "SimpleLruWritePage_wait pageno slotno w =
     (if page_status (shared w) slotno = SLRU_PAGE_WRITE_IN_PROGRESS \<and>
         page_number (shared w) slotno = pageno
      then SimpleLruWaitIO slotno w else w)"
  by (subst SimpleLruWritePage_wait.simps, subst SimpleLruWritePage_wait.simps)
     (simp add: WaitIO_shared)

lemma write_Inr:
  assumes "SimpleLruWritePage_write ctl pageno slotno fdata w1 = Inr (fd', w')"
  shows "(if page_dirty (shared w1) slotno \<and> page_status (shared w1) slotno = SLRU_PAGE_VALID \<and>
             page_number (shared w1) slotno = pageno
          then shared w' = (shared w1)\<lparr>page_status := (page_status (shared w1))(slotno := SLRU_PAGE_VALID),
                                        page_dirty := (page_dirty (shared w1))(slotno := False)\<rparr> \<and>
               ControlLock w' = Some LW_EXCLUSIVE
          else w' = w1 \<and> fd' = fdata)"
proof -
  define w4 where "w4 = SimpleLruWritePage_begin slotno w1"
  obtain ok fdata1 w5 where pw: "SlruPhysicalWritePage ctl pageno slotno fdata w4 = (ok, fdata1, w5)"
    by (cases "SlruPhysicalWritePage ctl pageno slotno fdata w4")
  have "shared w5 = shared w4" using PhysicalWrite_same [OF pw] by (simp add: same_memory_def)
  moreover have "shared w4 = (shared w1)\<lparr>page_status := (page_status (shared w1))(slotno := SLRU_PAGE_WRITE_IN_PROGRESS),
       page_dirty := (page_dirty (shared w1))(slotno := False)\<rparr>"
    by (simp add: w4_def SimpleLruWritePage_begin_def LWLockRelease_ControlLock_def
        LWLockAcquire_buffer_def set_page_dirty_def set_page_status_def)
  ultimately show ?thesis
    using assms(1) pw
    unfolding SimpleLruWritePage_write_def Let_def w4_def [symmetric]
    by (auto simp: LWLockRelease_buffer_def LWLockAcquire_ControlLock_def set_page_dirty_def
        set_page_status_def split: if_splits)
qed

lemma write_Inl:
  assumes "SimpleLruWritePage_write ctl pageno slotno fdata w1 = Inl (e, w')"
  shows "page_dirty (shared w1) slotno \<and> page_status (shared w1) slotno = SLRU_PAGE_VALID \<and>
         page_number (shared w1) slotno = pageno \<and>
         shared w' = shared w1 \<and> ControlLock w' = Some LW_EXCLUSIVE \<and>
         (\<exists>cause en. e = SlruIOError cause en pageno 0)"
proof -
  define w4 where "w4 = SimpleLruWritePage_begin slotno w1"
  obtain ok fdata1 w5 where pw: "SlruPhysicalWritePage ctl pageno slotno fdata w4 = (ok, fdata1, w5)"
    by (cases "SlruPhysicalWritePage ctl pageno slotno fdata w4")
  have "shared w5 = shared w4" using PhysicalWrite_same [OF pw] by (simp add: same_memory_def)
  moreover have "shared w4 = (shared w1)\<lparr>page_status := (page_status (shared w1))(slotno := SLRU_PAGE_WRITE_IN_PROGRESS),
       page_dirty := (page_dirty (shared w1))(slotno := False)\<rparr>"
    by (simp add: w4_def SimpleLruWritePage_begin_def LWLockRelease_ControlLock_def
        LWLockAcquire_buffer_def set_page_dirty_def set_page_status_def)
  ultimately show ?thesis
    using assms(1) pw
    unfolding SimpleLruWritePage_write_def Let_def w4_def [symmetric]
    by (auto simp: LWLockRelease_buffer_def LWLockAcquire_ControlLock_def set_page_dirty_def
        set_page_status_def SlruReportIOError_def fun_upd_idem split: if_splits)
qed

subsection \<open>The scan keeps status and dirty flags; progress of the restart loops\<close>

lemma step_frame:
  "SlruSelectLRUPage_step ctl cur slotno best sh = (best', sh') \<Longrightarrow>
     sh' = sh\<lparr>page_lru_count := (page_lru_count sh)
             (slotno := if cur - page_lru_count sh slotno <s 0 then cur else page_lru_count sh slotno)\<rparr>"
  by (cases best) (auto simp: SlruSelectLRUPage_step_def Let_def split: if_splits)

lemma step_best:
  "SlruSelectLRUPage_step ctl cur slotno (b, d, p) sh = ((b', d', p'), sh') \<Longrightarrow>
     b' = b \<or> b' = slotno"
  by (auto simp: SlruSelectLRUPage_step_def Let_def split: if_splits)

lemma scan_frame:
  "SlruSelectLRUPage_scan ctl cur xs best sh = (r, best', sh') \<Longrightarrow>
     page_status sh' = page_status sh \<and> page_dirty sh' = page_dirty sh \<and>
     num_slots sh' = num_slots sh \<and> page_number sh' = page_number sh \<and>
     latest_page_number sh' = latest_page_number sh \<and> page_buffer sh' = page_buffer sh \<and>
     lsn_groups_per_page sh' = lsn_groups_per_page sh \<and> group_lsn sh' = group_lsn sh \<and>
     cur_lru_count sh' = cur_lru_count sh"
proof (induction xs arbitrary: best sh)
  case Nil
  then show ?case by simp
next
  case (Cons slotno rest)
  show ?case
  proof (cases "page_status sh slotno = SLRU_PAGE_EMPTY")
    case True
    with Cons.prems show ?thesis by simp
  next
    case False
    obtain b1 sh1 where st: "SlruSelectLRUPage_step ctl cur slotno best sh = (b1, sh1)"
      by (cases "SlruSelectLRUPage_step ctl cur slotno best sh")
    from Cons.prems False st have "SlruSelectLRUPage_scan ctl cur rest b1 sh1 = (r, best', sh')"
      by simp
    from Cons.IH [OF this] step_frame [OF st] show ?thesis by simp
  qed
qed

lemma scan_none:
  "SlruSelectLRUPage_scan ctl cur xs (b, d, p) sh = (None, (b', d', p'), sh') \<Longrightarrow>
     (\<forall>i\<in>set xs. page_status sh i \<noteq> SLRU_PAGE_EMPTY) \<and> (b' = b \<or> b' \<in> set xs)"
proof (induction xs arbitrary: b d p sh)
  case Nil
  then show ?case by simp
next
  case (Cons slotno rest)
  show ?case
  proof (cases "page_status sh slotno = SLRU_PAGE_EMPTY")
    case True
    with Cons.prems show ?thesis by simp
  next
    case False
    obtain b1 d1 p1 sh1 where st: "SlruSelectLRUPage_step ctl cur slotno (b, d, p) sh = ((b1, d1, p1), sh1)"
      by (cases "SlruSelectLRUPage_step ctl cur slotno (b, d, p) sh") auto
    from Cons.prems False st
    have sc: "SlruSelectLRUPage_scan ctl cur rest (b1, d1, p1) sh1 = (None, (b', d', p'), sh')"
      by simp
    have "page_status sh1 = page_status sh" using step_frame [OF st] by simp
    with Cons.IH [OF sc] step_best [OF st] False show ?thesis by auto
  qed
qed

lemma pass_frame:
  "SlruSelectLRUPage_pass ctl sh = (r, best', sh') \<Longrightarrow>
     page_status sh' = page_status sh \<and> page_dirty sh' = page_dirty sh \<and>
     num_slots sh' = num_slots sh \<and> page_number sh' = page_number sh \<and>
     latest_page_number sh' = latest_page_number sh \<and> page_buffer sh' = page_buffer sh \<and>
     lsn_groups_per_page sh' = lsn_groups_per_page sh \<and> group_lsn sh' = group_lsn sh"
  unfolding SlruSelectLRUPage_pass_def by (drule scan_frame) simp

lemma pass_none:
  assumes "SlruSelectLRUPage_pass ctl sh = (None, (b', d', p'), sh')" and "0 < num_slots sh"
  shows "b' < num_slots sh \<and> page_status sh b' \<noteq> SLRU_PAGE_EMPTY"
proof -
  from assms(1) have "SlruSelectLRUPage_scan ctl (cur_lru_count sh) [0..<num_slots sh] (0, - 1, 0)
       (sh\<lparr>cur_lru_count := cur_lru_count sh + 1\<rparr>) = (None, (b', d', p'), sh')"
    by (simp add: SlruSelectLRUPage_pass_def)
  from scan_none [OF this] assms(2) show ?thesis by auto
qed

definition slot_weight :: "SlruPageStatus \<Rightarrow> bool \<Rightarrow> nat" where
  "slot_weight st d =
     (case st of SLRU_PAGE_EMPTY \<Rightarrow> 0 | SLRU_PAGE_READ_IN_PROGRESS \<Rightarrow> 1
      | SLRU_PAGE_VALID \<Rightarrow> (if d then 1 else 0) | SLRU_PAGE_WRITE_IN_PROGRESS \<Rightarrow> 2)"

definition io_weight :: "SlruSharedData \<Rightarrow> nat" where
  "io_weight sh = (\<Sum>i<num_slots sh. slot_weight (page_status sh i) (page_dirty sh i))"

lemma io_weight_less:
  assumes "b < num_slots sh" and "num_slots sh' = num_slots sh"
    and "\<forall>i. i \<noteq> b \<longrightarrow> page_status sh' i = page_status sh i \<and> page_dirty sh' i = page_dirty sh i"
    and "slot_weight (page_status sh' b) (page_dirty sh' b) < slot_weight (page_status sh b) (page_dirty sh b)"
  shows "io_weight sh' < io_weight sh"
proof -
  have "(\<Sum>i<num_slots sh. slot_weight (page_status sh' i) (page_dirty sh' i))
      < (\<Sum>i<num_slots sh. slot_weight (page_status sh i) (page_dirty sh i))"
  proof (rule sum_strict_mono_ex1)
    show "finite {..<num_slots sh}" by simp
    show "\<forall>i\<in>{..<num_slots sh}. slot_weight (page_status sh' i) (page_dirty sh' i)
        \<le> slot_weight (page_status sh i) (page_dirty sh i)"
    proof
      fix i assume "i \<in> {..<num_slots sh}"
      show "slot_weight (page_status sh' i) (page_dirty sh' i)
        \<le> slot_weight (page_status sh i) (page_dirty sh i)"
      proof (cases "i = b")
        case True
        with assms(4) show ?thesis by simp
      next
        case False
        with assms(3) show ?thesis by simp
      qed
    qed
    show "\<exists>a\<in>{..<num_slots sh}. slot_weight (page_status sh' a) (page_dirty sh' a)
        < slot_weight (page_status sh a) (page_dirty sh a)"
      using assms(1,4) by blast
  qed
  then show ?thesis by (simp add: io_weight_def assms(2))
qed

lemma io_weight_le:
  assumes "num_slots sh' = num_slots sh"
    and "\<forall>i. slot_weight (page_status sh' i) (page_dirty sh' i) \<le> slot_weight (page_status sh i) (page_dirty sh i)"
  shows "io_weight sh' \<le> io_weight sh"
  unfolding io_weight_def assms(1) by (rule sum_mono) (simp add: assms(2))

lemma io_weight_pass:
  "SlruSelectLRUPage_pass ctl sh = (r, best', sh') \<Longrightarrow> io_weight sh' = io_weight sh"
  by (drule pass_frame) (simp add: io_weight_def)

lemma select_write_decreases:
  assumes p: "SlruSelectLRUPage_pass ctl (shared w) = (None, (b, d, pn), sh')"
    and n: "0 < num_slots (shared w)"
    and v: "page_status sh' b = SLRU_PAGE_VALID" and dirty: "page_dirty sh' b"
    and wr: "SimpleLruWritePage ctl b None (w\<lparr>shared := sh'\<rparr>) = Inr (fd, w2)"
  shows "io_weight (shared w2) < io_weight (shared w)"
proof -
  from pass_none [OF p n] have b: "b < num_slots (shared w)" by simp
  note fr = pass_frame [OF p]
  have wt: "SimpleLruWritePage_wait (page_number sh' b) b (w\<lparr>shared := sh'\<rparr>) = w\<lparr>shared := sh'\<rparr>"
    by (simp add: WritePage_wait_eq v)
  from wr have "SimpleLruWritePage_write ctl (page_number sh' b) b None (w\<lparr>shared := sh'\<rparr>) = Inr (fd, w2)"
    by (simp add: SimpleLruWritePage_def wt)
  from write_Inr [OF this] v dirty
  have sh2: "shared w2 = sh'\<lparr>page_status := (page_status sh')(b := SLRU_PAGE_VALID),
                                page_dirty := (page_dirty sh')(b := False)\<rparr>"
    by simp
  have "io_weight (shared w2) < io_weight sh'"
    by (rule io_weight_less [where b = b]) (use b fr v dirty in \<open>simp_all add: sh2 slot_weight_def\<close>)
  with io_weight_pass [OF p] show ?thesis by simp
qed

lemma select_wait_decreases:
  assumes p: "SlruSelectLRUPage_pass ctl (shared w) = (None, (b, d, pn), sh')"
    and n: "0 < num_slots (shared w)"
    and v: "page_status sh' b \<noteq> SLRU_PAGE_VALID"
  shows "io_weight (shared (SimpleLruWaitIO b (w\<lparr>shared := sh'\<rparr>))) < io_weight (shared w)"
proof -
  from pass_none [OF p n] have b: "b < num_slots (shared w)"
    and ne: "page_status (shared w) b \<noteq> SLRU_PAGE_EMPTY" by simp_all
  note fr = pass_frame [OF p]
  from ne v fr have st: "page_status sh' b = SLRU_PAGE_READ_IN_PROGRESS \<or>
      page_status sh' b = SLRU_PAGE_WRITE_IN_PROGRESS"
    by (cases "page_status sh' b") simp_all
  have "io_weight (shared (SimpleLruWaitIO b (w\<lparr>shared := sh'\<rparr>))) < io_weight sh'"
    by (rule io_weight_less [where b = b]) (use b fr st in \<open>auto simp: WaitIO_shared slot_weight_def\<close>)
  with io_weight_pass [OF p] show ?thesis by simp
qed

subsection \<open>SlruSelectLRUPage\<close>

text \<open>
  The outer loop restarts after a write or a wait. With \<open>num_slots = 0\<close> the source reads
  \<open>page_status[0]\<close> outside the array; the model stops there with \<open>SlruOutOfBounds\<close>.
\<close>

function SlruSelectLRUPage ::
  "SlruCtlData \<Rightarrow> int32 \<Rightarrow> slru_world \<Rightarrow> (slru_error \<times> slru_world) + (nat \<times> slru_world)" where
  "SlruSelectLRUPage ctl pageno w =
     (case SlruFindPage (shared w) pageno of
        Some slotno \<Rightarrow> Inr (slotno, w)
      | None \<Rightarrow>
          (case SlruSelectLRUPage_pass ctl (shared w) of
             (Some slotno, best, sh') \<Rightarrow> Inr (slotno, w\<lparr>shared := sh'\<rparr>)
           | (None, (bestslot, best_delta, best_page_number), sh') \<Rightarrow>
               if num_slots (shared w) = 0 then Inl (SlruOutOfBounds, w\<lparr>shared := sh'\<rparr>)
               else if page_status sh' bestslot = SLRU_PAGE_VALID \<and> \<not> page_dirty sh' bestslot
               then Inr (bestslot, w\<lparr>shared := sh'\<rparr>)
               else if page_status sh' bestslot = SLRU_PAGE_VALID
               then (case SimpleLruWritePage ctl bestslot None (w\<lparr>shared := sh'\<rparr>) of
                       Inl err \<Rightarrow> Inl err
                     | Inr (fdata, w2) \<Rightarrow> SlruSelectLRUPage ctl pageno w2)
               else SlruSelectLRUPage ctl pageno (SimpleLruWaitIO bestslot (w\<lparr>shared := sh'\<rparr>))))"
  by pat_completeness auto
termination
proof (relation "measure (\<lambda>(ctl, pageno, w). io_weight (shared w))", goal_cases)
  case 1
  show ?case by simp
next
  case (2 ctl pageno w x2 x1 x2a x1a x2b x1b x2c x2d x1c x2e yd)
  from 2 have "SlruSelectLRUPage_pass ctl (shared w) = (None, (x2b, x2c, x2d), x1a)"
    and "SimpleLruWritePage ctl x2b None (w\<lparr>shared := x1a\<rparr>) = Inr (x2e, yd)"
    by simp_all
  from select_write_decreases [OF this(1) _ _ _ this(2)] 2 show ?case by simp
next
  case (3 ctl pageno w x2 x1 x2a x1a x2b x1b x2c x2d)
  from 3 have "SlruSelectLRUPage_pass ctl (shared w) = (None, (x2b, x2c, x2d), x1a)"
    by simp
  from select_wait_decreases [OF this] 3 show ?case by simp
qed

declare SlruSelectLRUPage.simps [simp del]

subsection \<open>What the scan computes\<close>

text \<open>
  The count a slot is left with, the difference the comparison uses, and the slots that
  may be chosen, as the loop body computes them.
\<close>

definition repaired_count :: "int32 \<Rightarrow> int32 \<Rightarrow> int32" where
  "repaired_count cur_count lru = (if cur_count - lru <s 0 then cur_count else lru)"

definition this_delta :: "int32 \<Rightarrow> SlruSharedData \<Rightarrow> nat \<Rightarrow> int32" where
  "this_delta cur_count sh slotno =
     (if cur_count - page_lru_count sh slotno <s 0 then 0 else cur_count - page_lru_count sh slotno)"

definition evictable :: "SlruSharedData \<Rightarrow> nat \<Rightarrow> bool" where
  "evictable sh slotno \<longleftrightarrow> page_number sh slotno \<noteq> latest_page_number sh"

lemma repaired_idem [simp]: "repaired_count cur (repaired_count cur x) = repaired_count cur x"
  by (simp add: repaired_count_def word_sless_alt)

lemma this_delta_nonneg: "\<not> this_delta cur sh i <s 0"
  by (simp add: this_delta_def word_sless_alt)

lemma this_delta_gt_m1: "- 1 <s this_delta cur sh i"
  using this_delta_nonneg [of cur sh i] by (simp add: word_sless_alt)

lemma step_eq:
  "SlruSelectLRUPage_step ctl cur slotno (b, d, p) sh =
     ((if (d <s this_delta cur sh slotno \<or>
           (this_delta cur sh slotno = d \<and> PagePrecedes ctl (page_number sh slotno) p)) \<and>
          evictable sh slotno
       then (slotno, this_delta cur sh slotno, page_number sh slotno) else (b, d, p)),
      sh\<lparr>page_lru_count := (page_lru_count sh)(slotno := repaired_count cur (page_lru_count sh slotno))\<rparr>)"
proof (cases "cur - page_lru_count sh slotno <s 0")
  case True
  then show ?thesis
    by (simp add: SlruSelectLRUPage_step_def Let_def this_delta_def evictable_def repaired_count_def)
next
  case False
  then show ?thesis
    by (simp add: SlruSelectLRUPage_step_def Let_def this_delta_def evictable_def repaired_count_def)
qed

lemma this_delta_repaired:
  "this_delta cur (sh\<lparr>page_lru_count := (page_lru_count sh)(slotno := repaired_count cur (page_lru_count sh slotno))\<rparr>) i
     = this_delta cur sh i"
  by (simp add: this_delta_def repaired_count_def word_sless_alt)

lemma step_this_delta:
  assumes "SlruSelectLRUPage_step ctl cur slotno best sh = (best', sh')"
  shows "this_delta cur sh' i = this_delta cur sh i \<and> evictable sh' i = evictable sh i \<and>
     page_number sh' = page_number sh \<and> page_status sh' = page_status sh"
proof -
  obtain b d p where best: "best = (b, d, p)" by (cases best)
  from assms have "sh' = sh\<lparr>page_lru_count := (page_lru_count sh)(slotno := repaired_count cur (page_lru_count sh slotno))\<rparr>"
    by (simp add: best step_eq)
  then show ?thesis
    by (simp add: this_delta_repaired evictable_def)
qed

lemma scan_first_empty:
  "fst (SlruSelectLRUPage_scan ctl cur xs best sh) = find (\<lambda>i. page_status sh i = SLRU_PAGE_EMPTY) xs"
proof (induction xs arbitrary: best sh)
  case Nil
  show ?case by simp
next
  case (Cons slotno rest)
  obtain b1 sh1 where st: "SlruSelectLRUPage_step ctl cur slotno best sh = (b1, sh1)"
    by (cases "SlruSelectLRUPage_step ctl cur slotno best sh")
  from step_this_delta [OF st] have "page_status sh1 = page_status sh" by simp
  with Cons.IH [of b1 sh1] st show ?case by simp
qed

lemma scan_counts:
  "SlruSelectLRUPage_scan ctl cur xs best sh = (None, best', sh') \<Longrightarrow>
     page_lru_count sh' i =
       (if i \<in> set xs then repaired_count cur (page_lru_count sh i) else page_lru_count sh i)"
proof (induction xs arbitrary: best sh)
  case Nil
  then show ?case by simp
next
  case (Cons slotno rest)
  from Cons.prems have ne: "page_status sh slotno \<noteq> SLRU_PAGE_EMPTY"
    by (auto split: if_splits)
  obtain b1 sh1 where st: "SlruSelectLRUPage_step ctl cur slotno best sh = (b1, sh1)"
    by (cases "SlruSelectLRUPage_step ctl cur slotno best sh")
  from Cons.prems ne st have sc: "SlruSelectLRUPage_scan ctl cur rest b1 sh1 = (None, best', sh')"
    by simp
  have lru1: "page_lru_count sh1 = (page_lru_count sh)(slotno := repaired_count cur (page_lru_count sh slotno))"
    using st by (cases best) (auto simp: step_eq)
  from Cons.IH [OF sc] show ?case by (simp add: lru1)
qed

text \<open>What the scan guarantees about the best slot.\<close>

lemma scan_best:
  assumes "SlruSelectLRUPage_scan ctl cur xs (b, d, p) sh = (None, (b', d', p'), sh')"
  shows "sint d \<le> sint d' \<and>
         (\<forall>i\<in>set xs. evictable sh i \<longrightarrow> sint (this_delta cur sh i) \<le> sint d') \<and>
         ((b', d', p') = (b, d, p) \<or>
          (b' \<in> set xs \<and> evictable sh b' \<and> d' = this_delta cur sh b' \<and> p' = page_number sh b'))"
  using assms
proof (induction xs arbitrary: b d p sh)
  case Nil
  then show ?case by simp
next
  case (Cons slotno rest)
  from Cons.prems have ne: "page_status sh slotno \<noteq> SLRU_PAGE_EMPTY"
    by (auto split: if_splits)
  obtain b1 d1 p1 sh1 where st: "SlruSelectLRUPage_step ctl cur slotno (b, d, p) sh = ((b1, d1, p1), sh1)"
    by (cases "SlruSelectLRUPage_step ctl cur slotno (b, d, p) sh") auto
  from Cons.prems ne st have sc: "SlruSelectLRUPage_scan ctl cur rest (b1, d1, p1) sh1 = (None, (b', d', p'), sh')"
    by simp
  have fr: "\<And>i. this_delta cur sh1 i = this_delta cur sh i" "\<And>i. evictable sh1 i = evictable sh i"
    "page_number sh1 = page_number sh"
    using step_this_delta [OF st] by simp_all
  note ih = Cons.IH [OF sc, unfolded fr]
  have s1: "sint d \<le> sint d1"
    using st by (auto simp: step_eq word_sless_alt split: if_splits)
  have s2: "evictable sh slotno \<Longrightarrow> sint (this_delta cur sh slotno) \<le> sint d1"
    using st by (auto simp: step_eq word_sless_alt split: if_splits)
  have s3: "(b1, d1, p1) = (b, d, p) \<or>
      (b1 = slotno \<and> evictable sh slotno \<and> d1 = this_delta cur sh slotno \<and> p1 = page_number sh slotno)"
    using st by (auto simp: step_eq split: if_splits)
  from ih s1 s2 s3 show ?case
    by auto
qed

lemma step_cases:
  assumes "SlruSelectLRUPage_step ctl cur slotno (b, d, p) sh = ((b1, d1, p1), sh1)"
  shows "((b1, d1, p1) = (slotno, this_delta cur sh slotno, page_number sh slotno) \<and> evictable sh slotno \<and>
          (d <s this_delta cur sh slotno \<or>
           (this_delta cur sh slotno = d \<and> PagePrecedes ctl (page_number sh slotno) p))) \<or>
         ((b1, d1, p1) = (b, d, p) \<and>
          (evictable sh slotno \<longrightarrow> \<not> d <s this_delta cur sh slotno \<and>
             (this_delta cur sh slotno = d \<longrightarrow> \<not> PagePrecedes ctl (page_number sh slotno) p)))"
  using assms by (auto simp: step_eq split: if_splits)

lemma scan_later_ties:
  assumes "SlruSelectLRUPage_scan ctl cur xs (b, d, p) sh = (None, (b', d', p'), sh')"
    and "sorted_wrt (<) xs"
  shows "((b', d', p') = (b, d, p) \<and>
          (\<forall>i\<in>set xs. evictable sh i \<and> this_delta cur sh i = d \<longrightarrow>
             \<not> PagePrecedes ctl (page_number sh i) p)) \<or>
         (b' \<in> set xs \<and>
          (\<forall>i\<in>set xs. b' < i \<and> evictable sh i \<and> this_delta cur sh i = d' \<longrightarrow>
             \<not> PagePrecedes ctl (page_number sh i) p'))"
  using assms
proof (induction xs arbitrary: b d p sh)
  case Nil
  then show ?case by simp
next
  case (Cons slotno rest)
  from Cons.prems have ne: "page_status sh slotno \<noteq> SLRU_PAGE_EMPTY"
    by (auto split: if_splits)
  from Cons.prems have gt: "\<forall>i\<in>set rest. slotno < i" and srt: "sorted_wrt (<) rest"
    by simp_all
  obtain b1 d1 p1 sh1 where st: "SlruSelectLRUPage_step ctl cur slotno (b, d, p) sh = ((b1, d1, p1), sh1)"
    by (cases "SlruSelectLRUPage_step ctl cur slotno (b, d, p) sh") auto
  from Cons.prems ne st have sc: "SlruSelectLRUPage_scan ctl cur rest (b1, d1, p1) sh1 = (None, (b', d', p'), sh')"
    by simp
  have fr: "\<And>i. this_delta cur sh1 i = this_delta cur sh i" "\<And>i. evictable sh1 i = evictable sh i"
    "page_number sh1 = page_number sh"
    using step_this_delta [OF st] by simp_all
  note ih = Cons.IH [OF sc srt, unfolded fr]
  from step_cases [OF st] show ?case
  proof
    assume r: "(b1, d1, p1) = (slotno, this_delta cur sh slotno, page_number sh slotno) \<and> evictable sh slotno \<and>
          (d <s this_delta cur sh slotno \<or>
           (this_delta cur sh slotno = d \<and> PagePrecedes ctl (page_number sh slotno) p))"
    from ih show ?thesis
    proof
      assume "(b', d', p') = (b1, d1, p1) \<and>
          (\<forall>i\<in>set rest. evictable sh i \<and> this_delta cur sh i = d1 \<longrightarrow>
             \<not> PagePrecedes ctl (page_number sh i) p1)"
      with r have "b' \<in> set (slotno # rest) \<and>
          (\<forall>i\<in>set (slotno # rest). b' < i \<and> evictable sh i \<and> this_delta cur sh i = d' \<longrightarrow>
             \<not> PagePrecedes ctl (page_number sh i) p')"
        by auto
      then show ?thesis by (rule disjI2)
    next
      assume "b' \<in> set rest \<and>
          (\<forall>i\<in>set rest. b' < i \<and> evictable sh i \<and> this_delta cur sh i = d' \<longrightarrow>
             \<not> PagePrecedes ctl (page_number sh i) p')"
      with gt have "b' \<in> set (slotno # rest) \<and>
          (\<forall>i\<in>set (slotno # rest). b' < i \<and> evictable sh i \<and> this_delta cur sh i = d' \<longrightarrow>
             \<not> PagePrecedes ctl (page_number sh i) p')"
        by auto
      then show ?thesis by (rule disjI2)
    qed
  next
    assume k: "(b1, d1, p1) = (b, d, p) \<and>
          (evictable sh slotno \<longrightarrow> \<not> d <s this_delta cur sh slotno \<and>
             (this_delta cur sh slotno = d \<longrightarrow> \<not> PagePrecedes ctl (page_number sh slotno) p))"
    from ih show ?thesis
    proof
      assume "(b', d', p') = (b1, d1, p1) \<and>
          (\<forall>i\<in>set rest. evictable sh i \<and> this_delta cur sh i = d1 \<longrightarrow>
             \<not> PagePrecedes ctl (page_number sh i) p1)"
      with k have "(b', d', p') = (b, d, p) \<and>
          (\<forall>i\<in>set (slotno # rest). evictable sh i \<and> this_delta cur sh i = d \<longrightarrow>
             \<not> PagePrecedes ctl (page_number sh i) p)"
        by auto
      then show ?thesis by (rule disjI1)
    next
      assume "b' \<in> set rest \<and>
          (\<forall>i\<in>set rest. b' < i \<and> evictable sh i \<and> this_delta cur sh i = d' \<longrightarrow>
             \<not> PagePrecedes ctl (page_number sh i) p')"
      with gt have "b' \<in> set (slotno # rest) \<and>
          (\<forall>i\<in>set (slotno # rest). b' < i \<and> evictable sh i \<and> this_delta cur sh i = d' \<longrightarrow>
             \<not> PagePrecedes ctl (page_number sh i) p')"
        by auto
      then show ?thesis by (rule disjI2)
    qed
  qed
qed

definition strict_page_order :: "SlruCtlData \<Rightarrow> bool" where
  "strict_page_order ctl \<longleftrightarrow>
     (\<forall>a. \<not> PagePrecedes ctl a a) \<and>
     (\<forall>a b c. PagePrecedes ctl a b \<longrightarrow> PagePrecedes ctl b c \<longrightarrow> PagePrecedes ctl a c)"

lemma scan_all_ties:
  assumes "SlruSelectLRUPage_scan ctl cur xs (b, d, p) sh = (None, (b', d', p'), sh')"
    and ord: "strict_page_order ctl"
  shows "(\<forall>i\<in>set xs. evictable sh i \<and> this_delta cur sh i = d' \<longrightarrow>
            \<not> PagePrecedes ctl (page_number sh i) p') \<and>
         (d' = d \<longrightarrow> p' = p \<or> PagePrecedes ctl p' p)"
  using assms(1)
proof (induction xs arbitrary: b d p sh)
  case Nil
  then show ?case by simp
next
  case (Cons slotno rest)
  from ord have irr: "\<And>a. \<not> PagePrecedes ctl a a"
    and tr: "\<And>a b c. PagePrecedes ctl a b \<Longrightarrow> PagePrecedes ctl b c \<Longrightarrow> PagePrecedes ctl a c"
    unfolding strict_page_order_def by blast+
  from Cons.prems have ne: "page_status sh slotno \<noteq> SLRU_PAGE_EMPTY"
    by (auto split: if_splits)
  obtain b1 d1 p1 sh1 where st: "SlruSelectLRUPage_step ctl cur slotno (b, d, p) sh = ((b1, d1, p1), sh1)"
    by (cases "SlruSelectLRUPage_step ctl cur slotno (b, d, p) sh") auto
  from Cons.prems ne st have sc: "SlruSelectLRUPage_scan ctl cur rest (b1, d1, p1) sh1 = (None, (b', d', p'), sh')"
    by simp
  have fr: "\<And>i. this_delta cur sh1 i = this_delta cur sh i" "\<And>i. evictable sh1 i = evictable sh i"
    "page_number sh1 = page_number sh"
    using step_this_delta [OF st] by simp_all
  note ih = Cons.IH [OF sc, unfolded fr]
  from scan_best [OF sc] have mono: "sint d1 \<le> sint d'" by simp
  from ih have ih1: "\<And>i. i \<in> set rest \<Longrightarrow> evictable sh i \<Longrightarrow> this_delta cur sh i = d'
      \<Longrightarrow> \<not> PagePrecedes ctl (page_number sh i) p'"
    and ih2: "d' = d1 \<Longrightarrow> p' = p1 \<or> PagePrecedes ctl p' p1"
    by blast+
  from step_cases [OF st] show ?case
  proof
    assume r: "(b1, d1, p1) = (slotno, this_delta cur sh slotno, page_number sh slotno) \<and> evictable sh slotno \<and>
          (d <s this_delta cur sh slotno \<or>
           (this_delta cur sh slotno = d \<and> PagePrecedes ctl (page_number sh slotno) p))"
    have a: "this_delta cur sh slotno = d' \<Longrightarrow> \<not> PagePrecedes ctl (page_number sh slotno) p'"
      using ih2 r irr tr by (metis prod.inject)
    have b: "d' = d \<Longrightarrow> p' = p \<or> PagePrecedes ctl p' p"
    proof -
      assume e: "d' = d"
      from r have "sint d \<le> sint d1" by (auto simp: word_sless_alt)
      with mono e have "sint d1 = sint d" by simp
      then have "d1 = d" by (rule signed_word_eqI)
      with r have "PagePrecedes ctl p1 p" by (auto simp: word_sless_alt)
      with ih2 e \<open>d1 = d\<close> tr show ?thesis by blast
    qed
    from a b ih1 show ?thesis by auto
  next
    assume k: "(b1, d1, p1) = (b, d, p) \<and>
          (evictable sh slotno \<longrightarrow> \<not> d <s this_delta cur sh slotno \<and>
             (this_delta cur sh slotno = d \<longrightarrow> \<not> PagePrecedes ctl (page_number sh slotno) p))"
    have a: "evictable sh slotno \<Longrightarrow> this_delta cur sh slotno = d' \<Longrightarrow>
        \<not> PagePrecedes ctl (page_number sh slotno) p'"
    proof -
      assume ev: "evictable sh slotno" and e: "this_delta cur sh slotno = d'"
      from k ev have "sint d' \<le> sint d" by (simp add: e [symmetric] word_sless_alt)
      with mono k have "sint d' = sint d" by simp
      then have "d' = d" by (rule signed_word_eqI)
      with k ev e have "\<not> PagePrecedes ctl (page_number sh slotno) p" by simp
      with ih2 k \<open>d' = d\<close> tr show ?thesis by blast
    qed
    from a k ih1 ih2 show ?thesis by auto
  qed
qed

lemma evictable_cur [simp]: "evictable (sh\<lparr>cur_lru_count := c\<rparr>) i = evictable sh i"
  by (simp add: evictable_def)

lemma this_delta_cur [simp]: "this_delta cur (sh\<lparr>cur_lru_count := c\<rparr>) i = this_delta cur sh i"
  by (simp add: this_delta_def)

lemma pass_empty:
  "fst (SlruSelectLRUPage_pass ctl sh) =
     find (\<lambda>i. page_status sh i = SLRU_PAGE_EMPTY) [0..<num_slots sh]"
  by (simp add: SlruSelectLRUPage_pass_def scan_first_empty)

lemma pass_Some:
  assumes "SlruSelectLRUPage_pass ctl sh = (Some slotno, best, sh')"
  shows "slotno < num_slots sh \<and> page_status sh slotno = SLRU_PAGE_EMPTY"
proof -
  from assms pass_empty [of ctl sh]
  have "find (\<lambda>i. page_status sh i = SLRU_PAGE_EMPTY) [0..<num_slots sh] = Some slotno" by simp
  then show ?thesis by (auto simp: find_Some_iff)
qed

lemma pass_best:
  assumes p: "SlruSelectLRUPage_pass ctl sh = (None, (b, d, p), sh')"
    and ex: "\<exists>i<num_slots sh. evictable sh i"
  shows "b < num_slots sh \<and> evictable sh b \<and> d = this_delta (cur_lru_count sh) sh b \<and>
         p = page_number sh b \<and>
         (\<forall>i<num_slots sh. evictable sh i \<longrightarrow> this_delta (cur_lru_count sh) sh i \<le>s d)"
proof -
  let ?sh1 = "sh\<lparr>cur_lru_count := cur_lru_count sh + 1\<rparr>"
  from p have sc: "SlruSelectLRUPage_scan ctl (cur_lru_count sh) [0..<num_slots sh] (0, - 1, 0) ?sh1
      = (None, (b, d, p), sh')"
    by (simp add: SlruSelectLRUPage_pass_def)
  from scan_best [OF sc]
  have mx: "\<forall>i<num_slots sh. evictable sh i \<longrightarrow> sint (this_delta (cur_lru_count sh) sh i) \<le> sint d"
    and alt: "(b, d, p) = (0, - 1, 0) \<or>
       (b < num_slots sh \<and> evictable sh b \<and> d = this_delta (cur_lru_count sh) sh b \<and> p = page_number sh b)"
    by auto
  from ex obtain i where i: "i < num_slots sh" "evictable sh i" by blast
  with mx have "sint (this_delta (cur_lru_count sh) sh i) \<le> sint d" by blast
  moreover have "- 1 < sint (this_delta (cur_lru_count sh) sh i)"
    using this_delta_gt_m1 [of "cur_lru_count sh" sh i] by (simp add: word_sless_alt)
  ultimately have "d \<noteq> - 1" by auto
  with alt mx show ?thesis by (auto simp: word_sle_eq)
qed

lemma FindPage_None:
  "SlruFindPage sh pageno = None \<longleftrightarrow>
     (\<forall>i<num_slots sh. page_number sh i = pageno \<longrightarrow> page_status sh i = SLRU_PAGE_EMPTY)"
  by (auto simp: SlruFindPage_def find_None_iff)

lemma FindPage_Some:
  "SlruFindPage sh pageno = Some slotno \<Longrightarrow>
     slotno < num_slots sh \<and> page_number sh slotno = pageno \<and> page_status sh slotno \<noteq> SLRU_PAGE_EMPTY"
  by (auto simp: SlruFindPage_def find_Some_iff)


lemma select_write_shared:
  assumes v: "page_status sh' b = SLRU_PAGE_VALID" and dirty: "page_dirty sh' b"
    and wr: "SimpleLruWritePage ctl b None (w\<lparr>shared := sh'\<rparr>) = Inr (fd, w2)"
  shows "shared w2 = sh'\<lparr>page_dirty := (page_dirty sh')(b := False)\<rparr>"
proof -
  have wt: "SimpleLruWritePage_wait (page_number sh' b) b (w\<lparr>shared := sh'\<rparr>) = w\<lparr>shared := sh'\<rparr>"
    by (simp add: WritePage_wait_eq v)
  from wr have "SimpleLruWritePage_write ctl (page_number sh' b) b None (w\<lparr>shared := sh'\<rparr>) = Inr (fd, w2)"
    by (simp add: SimpleLruWritePage_def wt)
  from write_Inr [OF this] v dirty
  have "shared w2 = sh'\<lparr>page_status := (page_status sh')(b := SLRU_PAGE_VALID),
                                page_dirty := (page_dirty sh')(b := False)\<rparr>"
    by simp
  moreover have "(page_status sh')(b := SLRU_PAGE_VALID) = page_status sh'"
    using v by auto
  ultimately show ?thesis by simp
qed

lemma SlruSelectLRUPage_induct [case_names hit empty oob clean write_fail write_ok busy]:
  assumes hit: "\<And>w slotno. SlruFindPage (shared w) pageno = Some slotno \<Longrightarrow> P w (Inr (slotno, w))"
    and empty: "\<And>w slotno best sh'. SlruFindPage (shared w) pageno = None \<Longrightarrow>
        SlruSelectLRUPage_pass ctl (shared w) = (Some slotno, best, sh') \<Longrightarrow>
        P w (Inr (slotno, w\<lparr>shared := sh'\<rparr>))"
    and oob: "\<And>w b d p sh'. SlruFindPage (shared w) pageno = None \<Longrightarrow>
        SlruSelectLRUPage_pass ctl (shared w) = (None, (b, d, p), sh') \<Longrightarrow>
        num_slots (shared w) = 0 \<Longrightarrow> P w (Inl (SlruOutOfBounds, w\<lparr>shared := sh'\<rparr>))"
    and clean: "\<And>w b d p sh'. SlruFindPage (shared w) pageno = None \<Longrightarrow>
        SlruSelectLRUPage_pass ctl (shared w) = (None, (b, d, p), sh') \<Longrightarrow>
        0 < num_slots (shared w) \<Longrightarrow>
        page_status sh' b = SLRU_PAGE_VALID \<Longrightarrow> \<not> page_dirty sh' b \<Longrightarrow>
        P w (Inr (b, w\<lparr>shared := sh'\<rparr>))"
    and write_fail: "\<And>w b d p sh' err. SlruFindPage (shared w) pageno = None \<Longrightarrow>
        SlruSelectLRUPage_pass ctl (shared w) = (None, (b, d, p), sh') \<Longrightarrow>
        0 < num_slots (shared w) \<Longrightarrow>
        page_status sh' b = SLRU_PAGE_VALID \<Longrightarrow> page_dirty sh' b \<Longrightarrow>
        SimpleLruWritePage ctl b None (w\<lparr>shared := sh'\<rparr>) = Inl err \<Longrightarrow> P w (Inl err)"
    and write_ok: "\<And>w b d p sh' fd w2. SlruFindPage (shared w) pageno = None \<Longrightarrow>
        SlruSelectLRUPage_pass ctl (shared w) = (None, (b, d, p), sh') \<Longrightarrow>
        0 < num_slots (shared w) \<Longrightarrow>
        page_status sh' b = SLRU_PAGE_VALID \<Longrightarrow> page_dirty sh' b \<Longrightarrow>
        SimpleLruWritePage ctl b None (w\<lparr>shared := sh'\<rparr>) = Inr (fd, w2) \<Longrightarrow>
        P w2 (SlruSelectLRUPage ctl pageno w2) \<Longrightarrow> P w (SlruSelectLRUPage ctl pageno w2)"
    and busy: "\<And>w b d p sh'. SlruFindPage (shared w) pageno = None \<Longrightarrow>
        SlruSelectLRUPage_pass ctl (shared w) = (None, (b, d, p), sh') \<Longrightarrow>
        0 < num_slots (shared w) \<Longrightarrow>
        page_status sh' b = SLRU_PAGE_READ_IN_PROGRESS \<or> page_status sh' b = SLRU_PAGE_WRITE_IN_PROGRESS \<Longrightarrow>
        P (SimpleLruWaitIO b (w\<lparr>shared := sh'\<rparr>))
          (SlruSelectLRUPage ctl pageno (SimpleLruWaitIO b (w\<lparr>shared := sh'\<rparr>))) \<Longrightarrow>
        P w (SlruSelectLRUPage ctl pageno (SimpleLruWaitIO b (w\<lparr>shared := sh'\<rparr>)))"
  shows "P w (SlruSelectLRUPage ctl pageno w)"
proof (induction "io_weight (shared w)" arbitrary: w rule: less_induct)
  case less
  show ?case
  proof (cases "SlruFindPage (shared w) pageno")
    case (Some slotno)
    with hit [OF Some] show ?thesis by (simp add: SlruSelectLRUPage.simps [of ctl pageno w])
  next
    case None
    obtain r b d p sh' where pass: "SlruSelectLRUPage_pass ctl (shared w) = (r, (b, d, p), sh')"
      by (cases "SlruSelectLRUPage_pass ctl (shared w)") auto
    show ?thesis
    proof (cases r)
      case (Some slotno)
      with empty [OF None pass [unfolded Some]] None pass show ?thesis
        by (simp add: SlruSelectLRUPage.simps [of ctl pageno w])
    next
      case rn: None
      note pass' = pass [unfolded rn]
      show ?thesis
      proof (cases "num_slots (shared w) = 0")
        case True
        with oob [OF None pass' True] None pass' show ?thesis
          by (simp add: SlruSelectLRUPage.simps [of ctl pageno w])
      next
        case False
        then have n: "0 < num_slots (shared w)" by simp
        let ?w1 = "w\<lparr>shared := sh'\<rparr>"
        consider (c) "page_status sh' b = SLRU_PAGE_VALID" "\<not> page_dirty sh' b"
          | (d) "page_status sh' b = SLRU_PAGE_VALID" "page_dirty sh' b"
          | (b) "page_status sh' b \<noteq> SLRU_PAGE_VALID" by blast
        then show ?thesis
        proof cases
          case c
          with clean [OF None pass' n c] None pass' n show ?thesis
            by (simp add: SlruSelectLRUPage.simps [of ctl pageno w])
        next
          case d
          show ?thesis
          proof (cases "SimpleLruWritePage ctl b None ?w1")
            case (Inl err)
            with write_fail [OF None pass' n d Inl] None pass' n d show ?thesis
              by (simp add: SlruSelectLRUPage.simps [of ctl pageno w])
          next
            case (Inr x)
            obtain fd w2 where x: "x = (fd, w2)" by (cases x)
            note wr = Inr [unfolded x]
            from select_write_decreases [OF pass' n d wr]
            have "P w2 (SlruSelectLRUPage ctl pageno w2)" by (rule less.hyps)
            from write_ok [OF None pass' n d wr this] None pass' n d wr show ?thesis
              by (simp add: SlruSelectLRUPage.simps [of ctl pageno w])
          qed
        next
          case b
          from pass_none [OF pass' n] pass_frame [OF pass'] b
          have st: "page_status sh' b = SLRU_PAGE_READ_IN_PROGRESS \<or>
              page_status sh' b = SLRU_PAGE_WRITE_IN_PROGRESS"
            by (cases "page_status sh' b") simp_all
          from select_wait_decreases [OF pass' n b]
          have "P (SimpleLruWaitIO b ?w1) (SlruSelectLRUPage ctl pageno (SimpleLruWaitIO b ?w1))"
            by (rule less.hyps)
          from busy [OF None pass' n st this] None pass' n b show ?thesis
            by (simp add: SlruSelectLRUPage.simps [of ctl pageno w])
        qed
      qed
    qed
  qed
qed

subsection \<open>The slot SlruSelectLRUPage returns\<close>

definition select_pre :: "int32 \<Rightarrow> SlruSharedData \<Rightarrow> bool" where
  "select_pre pageno sh \<longleftrightarrow>
     SlruFindPage sh pageno = None \<and>
     (\<forall>i<num_slots sh. page_status sh i = SLRU_PAGE_EMPTY \<longrightarrow> evictable sh i) \<and>
     (\<exists>i<num_slots sh. evictable sh i)"

definition same_pages :: "SlruSharedData \<Rightarrow> SlruSharedData \<Rightarrow> bool" where
  "same_pages sh sh' \<longleftrightarrow>
     page_number sh' = page_number sh \<and> latest_page_number sh' = latest_page_number sh \<and>
     num_slots sh' = num_slots sh"


lemma select_pre_kept:
  assumes pre: "select_pre pageno sh" and sp: "same_pages sh sh2"
    and e: "\<And>i. i < num_slots sh \<Longrightarrow> page_status sh2 i = SLRU_PAGE_EMPTY \<Longrightarrow>
              page_status sh i = SLRU_PAGE_EMPTY \<or> evictable sh i"
    and ne: "\<And>i. i < num_slots sh \<Longrightarrow> page_status sh i = SLRU_PAGE_EMPTY \<Longrightarrow>
              page_status sh2 i = SLRU_PAGE_EMPTY"
  shows "select_pre pageno sh2"
proof -
  from sp have pn: "page_number sh2 = page_number sh" and l: "latest_page_number sh2 = latest_page_number sh"
    and n: "num_slots sh2 = num_slots sh"
    by (simp_all add: same_pages_def)
  have ev: "\<And>i. evictable sh2 i = evictable sh i" by (simp add: evictable_def pn l)
  from pre have f: "\<And>i. i < num_slots sh \<Longrightarrow> page_number sh i = pageno \<Longrightarrow> page_status sh i = SLRU_PAGE_EMPTY"
    and em: "\<And>i. i < num_slots sh \<Longrightarrow> page_status sh i = SLRU_PAGE_EMPTY \<Longrightarrow> evictable sh i"
    and ex: "\<exists>i<num_slots sh. evictable sh i"
    by (simp_all add: select_pre_def FindPage_None)
  have "SlruFindPage sh2 pageno = None"
    unfolding FindPage_None n pn using f ne by blast
  moreover have "\<forall>i<num_slots sh2. page_status sh2 i = SLRU_PAGE_EMPTY \<longrightarrow> evictable sh2 i"
    unfolding n ev using e em by blast
  moreover have "\<exists>i<num_slots sh2. evictable sh2 i"
    unfolding n ev by (rule ex)
  ultimately show ?thesis unfolding select_pre_def by blast
qed

lemma same_pages_trans: "same_pages a b \<Longrightarrow> same_pages b c \<Longrightarrow> same_pages a c"
  by (simp add: same_pages_def)

lemma select_not_latest:
  "select_pre pageno (shared w) \<longrightarrow>
     (\<forall>slot w'. SlruSelectLRUPage ctl pageno w = Inr (slot, w') \<longrightarrow>
        slot < num_slots (shared w) \<and> evictable (shared w') slot \<and> same_pages (shared w) (shared w'))"
proof (induction w rule: SlruSelectLRUPage_induct [where ctl = ctl and pageno = pageno])
  case (hit w slotno)
  then show ?case by (simp add: select_pre_def)
next
  case (empty w slotno best sh')
  note fr = pass_frame [OF empty(2)]
  have sp: "same_pages (shared w) sh'" using fr by (simp add: same_pages_def)
  have ev: "evictable sh' slotno = evictable (shared w) slotno" using fr by (simp add: evictable_def)
  show ?case
  proof (intro impI allI)
    fix slot w'
    assume pre: "select_pre pageno (shared w)" and r: "Inr (slotno, w\<lparr>shared := sh'\<rparr>) = Inr (slot, w')"
    from pre pass_Some [OF empty(2)] have "evictable (shared w) slotno" "slotno < num_slots (shared w)"
      by (simp_all add: select_pre_def)
    with r sp ev show "slot < num_slots (shared w) \<and> evictable (shared w') slot \<and> same_pages (shared w) (shared w')"
      by auto
  qed
next
  case (oob w b d p sh')
  show ?case by simp
next
  case (clean w b d p sh')
  note fr = pass_frame [OF clean(2)]
  have sp: "same_pages (shared w) sh'" using fr by (simp add: same_pages_def)
  have ev: "evictable sh' b = evictable (shared w) b" using fr by (simp add: evictable_def)
  show ?case
  proof (intro impI allI)
    fix slot w'
    assume pre: "select_pre pageno (shared w)" and r: "Inr (b, w\<lparr>shared := sh'\<rparr>) = Inr (slot, w')"
    from pre have "\<exists>i<num_slots (shared w). evictable (shared w) i" by (simp add: select_pre_def)
    from pass_best [OF clean(2) this] have "b < num_slots (shared w)" "evictable (shared w) b" by simp_all
    with r sp ev show "slot < num_slots (shared w) \<and> evictable (shared w') slot \<and> same_pages (shared w) (shared w')"
      by auto
  qed
next
  case (write_fail w b d p sh' err)
  show ?case by simp
next
  case (write_ok w b d p sh' fd w2)
  note fr = pass_frame [OF write_ok(2)]
  note sh2 = select_write_shared [OF write_ok(4,5,6)]
  have sp: "same_pages (shared w) (shared w2)" using fr by (simp add: same_pages_def sh2)
  have st: "page_status (shared w2) = page_status (shared w)" using fr by (simp add: sh2)
  show ?case
  proof (intro impI allI)
    fix slot w'
    assume pre: "select_pre pageno (shared w)" and r: "SlruSelectLRUPage ctl pageno w2 = Inr (slot, w')"
    have "select_pre pageno (shared w2)"
      by (rule select_pre_kept [OF pre sp]) (simp_all add: st)
    with write_ok(7) r have "slot < num_slots (shared w2) \<and> evictable (shared w') slot \<and>
        same_pages (shared w2) (shared w')" by blast
    with sp same_pages_trans [OF sp] show "slot < num_slots (shared w) \<and> evictable (shared w') slot \<and>
        same_pages (shared w) (shared w')"
      by (simp add: same_pages_def)
  qed
next
  case (busy w b d p sh')
  note fr = pass_frame [OF busy(2)]
  let ?w2 = "SimpleLruWaitIO b (w\<lparr>shared := sh'\<rparr>)"
  have sp: "same_pages (shared w) (shared ?w2)"
    using fr by (simp add: same_pages_def WaitIO_shared)
  have st2: "page_status (shared ?w2) =
      (page_status (shared w))(b := if page_status (shared w) b = SLRU_PAGE_READ_IN_PROGRESS
                              then SLRU_PAGE_EMPTY else SLRU_PAGE_VALID)"
    using busy(4) fr by (auto simp: WaitIO_shared)
  show ?case
  proof (intro impI allI)
    fix slot w'
    assume pre: "select_pre pageno (shared w)" and r: "SlruSelectLRUPage ctl pageno ?w2 = Inr (slot, w')"
    from pre have ex: "\<exists>i<num_slots (shared w). evictable (shared w) i" by (simp add: select_pre_def)
    from pass_best [OF busy(2) ex] have evb: "evictable (shared w) b" by simp
    have "select_pre pageno (shared ?w2)"
    proof (rule select_pre_kept [OF pre sp])
      fix i assume "i < num_slots (shared w)" "page_status (shared ?w2) i = SLRU_PAGE_EMPTY"
      then show "page_status (shared w) i = SLRU_PAGE_EMPTY \<or> evictable (shared w) i"
        using evb by (cases "i = b") (simp_all add: st2)
    next
      fix i assume "i < num_slots (shared w)" "page_status (shared w) i = SLRU_PAGE_EMPTY"
      then show "page_status (shared ?w2) i = SLRU_PAGE_EMPTY"
        using busy(4) fr by (cases "i = b") (simp_all add: st2)
    qed
    with busy(5) r have "slot < num_slots (shared ?w2) \<and> evictable (shared w') slot \<and>
        same_pages (shared ?w2) (shared w')" by blast
    with sp same_pages_trans [OF sp] show "slot < num_slots (shared w) \<and> evictable (shared w') slot \<and>
        same_pages (shared w) (shared w')"
      by (simp add: same_pages_def)
  qed
qed

subsection \<open>Pools to run the functions on\<close>

text \<open>
  \<open>SimpleLruInit\<close>: the shared area as the postmaster sets it up. The page numbers and
  \<open>latest_page_number\<close> are whatever the zeroed area holds until a caller sets them.
\<close>

definition SimpleLruInit :: "nat \<Rightarrow> nat \<Rightarrow> SlruSharedData" where
  "SimpleLruInit nslots nlsns =
     \<lparr>num_slots = nslots,
      page_buffer = (\<lambda>slotno. replicate BLCKSZ 0),
      page_status = (\<lambda>slotno. SLRU_PAGE_EMPTY),
      page_dirty = (\<lambda>slotno. False),
      page_number = (\<lambda>slotno. 0),
      page_lru_count = (\<lambda>slotno. 0),
      lsn_groups_per_page = nlsns,
      group_lsn = (\<lambda>i. 0),
      cur_lru_count = 0,
      latest_page_number = 0\<rparr>"

text \<open>A backend that holds no lock, over an empty directory, with no failure planned.\<close>

definition backend_start :: "SlruSharedData \<Rightarrow> slru_world" where
  "backend_start sh =
     \<lparr>shared = sh, ControlLock = None, buffer_locks = (\<lambda>slotno. None),
      directory = [], InRecovery = False, errno = 0,
      slru_errcause = SLRU_OPEN_FAILED, slru_errno = 0, io_faults = [],
      server_log = [], wal_flushed = []\<rparr>"

definition clog_ctl :: SlruCtlData where
  "clog_ctl = \<lparr>do_fsync = True, PagePrecedes = (\<lambda>a b. a <s b), Dir = ''pg_clog''\<rparr>"

text \<open>A pool whose slots all hold valid clean pages: slot \<open>i\<close> holds page \<open>pages ! i\<close>
  with count \<open>counts ! i\<close>.\<close>

definition loaded_pool :: "int32 list \<Rightarrow> int32 list \<Rightarrow> int32 \<Rightarrow> int32 \<Rightarrow> SlruSharedData" where
  "loaded_pool pages counts cur latest =
     (SimpleLruInit (length pages) 0)
       \<lparr>page_status := (\<lambda>slotno. SLRU_PAGE_VALID),
        page_number := (\<lambda>slotno. pages ! slotno),
        page_lru_count := (\<lambda>slotno. counts ! slotno),
        cur_lru_count := cur,
        latest_page_number := latest\<rparr>"


lemma pass_counts:
  assumes "SlruSelectLRUPage_pass ctl sh = (None, best, sh')"
  shows "cur_lru_count sh' = cur_lru_count sh + 1 \<and>
         (\<forall>i<num_slots sh. page_lru_count sh' i = repaired_count (cur_lru_count sh) (page_lru_count sh i))"
proof -
  let ?sh1 = "sh\<lparr>cur_lru_count := cur_lru_count sh + 1\<rparr>"
  from assms have sc: "SlruSelectLRUPage_scan ctl (cur_lru_count sh) [0..<num_slots sh] (0, - 1, 0) ?sh1
      = (None, best, sh')"
    by (simp add: SlruSelectLRUPage_pass_def)
  from scan_frame [OF sc] scan_counts [OF sc] show ?thesis by simp
qed

lemma pass_ties:
  assumes p: "SlruSelectLRUPage_pass ctl sh = (None, (b, d, p), sh')"
    and ex: "\<exists>i<num_slots sh. evictable sh i"
  shows "(\<forall>i<num_slots sh. b < i \<and> evictable sh i \<and> this_delta (cur_lru_count sh) sh i = d \<longrightarrow>
            \<not> PagePrecedes ctl (page_number sh i) p) \<and>
         (strict_page_order ctl \<longrightarrow>
            (\<forall>i<num_slots sh. evictable sh i \<and> this_delta (cur_lru_count sh) sh i = d \<longrightarrow>
               \<not> PagePrecedes ctl (page_number sh i) p))"
proof -
  let ?sh1 = "sh\<lparr>cur_lru_count := cur_lru_count sh + 1\<rparr>"
  from p have sc: "SlruSelectLRUPage_scan ctl (cur_lru_count sh) [0..<num_slots sh] (0, - 1, 0) ?sh1
      = (None, (b, d, p), sh')"
    by (simp add: SlruSelectLRUPage_pass_def)
  from pass_best [OF p ex] have d: "d = this_delta (cur_lru_count sh) sh b" by simp
  have dm: "d \<noteq> - 1"
    using this_delta_gt_m1 [of "cur_lru_count sh" sh b] by (auto simp: d word_sless_alt)
  have srt: "sorted_wrt (<) [0..<num_slots sh]" by simp
  from scan_later_ties [OF sc srt] dm
  have "\<forall>i<num_slots sh. b < i \<and> evictable sh i \<and> this_delta (cur_lru_count sh) sh i = d \<longrightarrow>
            \<not> PagePrecedes ctl (page_number sh i) p"
    by auto
  moreover have "strict_page_order ctl \<Longrightarrow>
      \<forall>i<num_slots sh. evictable sh i \<and> this_delta (cur_lru_count sh) sh i = d \<longrightarrow>
               \<not> PagePrecedes ctl (page_number sh i) p"
    using scan_all_ties [OF sc] by auto
  ultimately show ?thesis by blast
qed

text \<open>
  Claim C6, as amended. One pass of victim selection over a pool \<open>sh\<close>, with
  \<open>cur = cur_lru_count sh\<close> before the increment:
  the pass ends at the first EMPTY slot in slot order and returns it; when there is none,
  the current count has advanced by one, every slot whose signed difference
  \<open>cur - page_lru_count\<close> is negative has its count set to \<open>cur\<close> (and counts as delta 0),
  and, if some slot holds a page other than \<open>latest_page_number\<close>, the best slot is such a
  slot, its delta is the largest among those slots (slots holding the latest page do not
  compete), no later slot of the same delta holds a page that precedes the winner's page,
  and for a transitive, irreflexive \<open>PagePrecedes\<close> no slot of the same delta at all does.
\<close>

theorem SlruSelectLRUPage_pass_choice:
  "fst (SlruSelectLRUPage_pass ctl sh) =
     find (\<lambda>i. page_status sh i = SLRU_PAGE_EMPTY) [0..<num_slots sh] \<and>
   (SlruSelectLRUPage_pass ctl sh = (None, (b, d, p), sh') \<longrightarrow>
      cur_lru_count sh' = cur_lru_count sh + 1 \<and>
      (\<forall>i<num_slots sh. page_lru_count sh' i = repaired_count (cur_lru_count sh) (page_lru_count sh i)) \<and>
      ((\<exists>i<num_slots sh. evictable sh i) \<longrightarrow>
         b < num_slots sh \<and> evictable sh b \<and>
         d = this_delta (cur_lru_count sh) sh b \<and> p = page_number sh b \<and>
         (\<forall>i<num_slots sh. evictable sh i \<longrightarrow> this_delta (cur_lru_count sh) sh i \<le>s d) \<and>
         (\<forall>i<num_slots sh. b < i \<and> evictable sh i \<and> this_delta (cur_lru_count sh) sh i = d \<longrightarrow>
            \<not> PagePrecedes ctl (page_number sh i) p) \<and>
         (strict_page_order ctl \<longrightarrow>
            (\<forall>i<num_slots sh. evictable sh i \<and> this_delta (cur_lru_count sh) sh i = d \<longrightarrow>
               \<not> PagePrecedes ctl (page_number sh i) p))))"
  using pass_empty [of ctl sh] pass_counts [of ctl sh "(b, d, p)" sh']
    pass_best [of ctl sh b d p sh'] pass_ties [of ctl sh b d p sh']
  by blast

lemma clog_ctl_order: "strict_page_order clog_ctl"
  by (auto simp: strict_page_order_def clog_ctl_def word_sless_alt)

lemma pass_ex1:
  "SlruSelectLRUPage_pass clog_ctl (loaded_pool [5, 6, 7] [0, 3, 3] 4 5) =
     (None, (1, 1, 6), loaded_pool [5, 6, 7] [0, 3, 3] 5 5)"
  by (simp add: SlruSelectLRUPage_pass_def loaded_pool_def SimpleLruInit_def clog_ctl_def
      SlruSelectLRUPage_step_def Let_def word_sless_alt upt_rec)

theorem SlruSelectLRUPage_pass_choice_witness:
  "SlruSelectLRUPage_pass clog_ctl (loaded_pool [5, 6, 7] [0, 3, 3] 4 5) =
     (None, (1, 1, 6), loaded_pool [5, 6, 7] [0, 3, 3] 5 5) \<and>
   evictable (loaded_pool [5, 6, 7] [0, 3, 3] 4 5) 2 \<and>
   strict_page_order clog_ctl \<and>
   this_delta 4 (loaded_pool [5, 6, 7] [0, 3, 3] 4 5) 2 = 1 \<and>
   \<not> PagePrecedes clog_ctl (page_number (loaded_pool [5, 6, 7] [0, 3, 3] 4 5) 2) 6 \<and>
   evictable (loaded_pool [5, 6, 7] [0, 3, 3] 4 5) 1"
proof -
  let ?sh = "loaded_pool [5, 6, 7] [0, 3, 3] 4 5"
  have ev: "evictable ?sh 2" and n: "(2::nat) < num_slots ?sh" and c: "cur_lru_count ?sh = 4"
    by (simp_all add: evictable_def loaded_pool_def SimpleLruInit_def)
  then have ex: "\<exists>i<num_slots ?sh. evictable ?sh i" by blast
  have td: "this_delta 4 ?sh 2 = 1"
    by (simp add: this_delta_def loaded_pool_def SimpleLruInit_def word_sless_alt)
  from SlruSelectLRUPage_pass_choice [of clog_ctl ?sh 1 1 6 "loaded_pool [5, 6, 7] [0, 3, 3] 5 5"]
    pass_ex1 ex clog_ctl_order
  have "evictable ?sh 1" and "\<forall>i<num_slots ?sh. evictable ?sh i \<and> this_delta (cur_lru_count ?sh) ?sh i = 1 \<longrightarrow>
               \<not> PagePrecedes clog_ctl (page_number ?sh i) 6"
    by blast+
  with ev n td c have "\<not> PagePrecedes clog_ctl (page_number ?sh 2) 6" by simp
  with pass_ex1 ev clog_ctl_order td \<open>evictable ?sh 1\<close> show ?thesis by blast
qed

text \<open>
  The claim as stated lets the slot of largest delta win. In this pool slot 0 has delta 4
  and slot 1 has delta 1, slot 0 holds the latest page, and the pass picks slot 1.
\<close>

theorem SlruSelectLRUPage_pass_choice_counterexample:
  "SlruSelectLRUPage_pass clog_ctl (loaded_pool [5, 6] [0, 3] 4 5) =
     (None, (1, 1, 6), loaded_pool [5, 6] [0, 3] 5 5) \<and>
   this_delta 4 (loaded_pool [5, 6] [0, 3] 4 5) 0 = 4 \<and>
   this_delta 4 (loaded_pool [5, 6] [0, 3] 4 5) 1 = 1 \<and>
   page_status (loaded_pool [5, 6] [0, 3] 4 5) 0 = SLRU_PAGE_VALID \<and>
   page_status (loaded_pool [5, 6] [0, 3] 4 5) 1 = SLRU_PAGE_VALID"
  by (simp add: SlruSelectLRUPage_pass_def loaded_pool_def SimpleLruInit_def clog_ctl_def
      SlruSelectLRUPage_step_def Let_def word_sless_alt upt_rec this_delta_def)

text \<open>
  Claim C1. When no slot holds the requested page and no slot is EMPTY, the slot
  \<open>SlruSelectLRUPage\<close> returns does not hold \<open>latest_page_number\<close>, whatever the LRU
  counts are; the page numbers and \<open>latest_page_number\<close> are as before the call. This is
  proved for every pool in which some slot holds a page other than \<open>latest_page_number\<close>,
  as in every pool of two or more slots that hold distinct pages. In the remaining pools
  the loop never assigns \<open>bestslot\<close>, and the initial value 0, which the source calls a
  no-op that keeps the compiler quiet, is what the function returns.
\<close>

theorem SlruSelectLRUPage_spares_latest:
  assumes "SlruFindPage (shared w) pageno = None"
    and "\<forall>i<num_slots (shared w). page_status (shared w) i \<noteq> SLRU_PAGE_EMPTY"
    and "\<exists>i<num_slots (shared w). page_number (shared w) i \<noteq> latest_page_number (shared w)"
    and "SlruSelectLRUPage ctl pageno w = Inr (slotno, w')"
  shows "slotno < num_slots (shared w) \<and>
         page_number (shared w') slotno \<noteq> latest_page_number (shared w') \<and>
         page_number (shared w') = page_number (shared w) \<and>
         latest_page_number (shared w') = latest_page_number (shared w)"
proof -
  from assms(1,2,3) have "select_pre pageno (shared w)"
    by (simp add: select_pre_def evictable_def)
  with select_not_latest [of pageno w ctl] assms(4)
  have "slotno < num_slots (shared w) \<and> evictable (shared w') slotno \<and>
      same_pages (shared w) (shared w')"
    by blast
  then show ?thesis unfolding evictable_def same_pages_def by blast
qed

lemma select_ex1:
  "SlruSelectLRUPage clog_ctl 9 (backend_start (loaded_pool [5, 6] [0, 3] 4 5)) =
     Inr (1, backend_start (loaded_pool [5, 6] [0, 3] 5 5))"
  by (simp add: SlruSelectLRUPage.simps SlruFindPage_def SlruSelectLRUPage_pass_def loaded_pool_def
      SimpleLruInit_def clog_ctl_def SlruSelectLRUPage_step_def Let_def word_sless_alt
      backend_start_def upt_rec)

theorem SlruSelectLRUPage_spares_latest_witness:
  "SlruFindPage (shared (backend_start (loaded_pool [5, 6] [0, 3] 4 5))) 9 = None \<and>
   page_status (shared (backend_start (loaded_pool [5, 6] [0, 3] 4 5))) 0 \<noteq> SLRU_PAGE_EMPTY \<and>
   page_status (shared (backend_start (loaded_pool [5, 6] [0, 3] 4 5))) 1 \<noteq> SLRU_PAGE_EMPTY \<and>
   page_number (shared (backend_start (loaded_pool [5, 6] [0, 3] 4 5))) 1 \<noteq> 5 \<and>
   SlruSelectLRUPage clog_ctl 9 (backend_start (loaded_pool [5, 6] [0, 3] 4 5)) =
     Inr (1, backend_start (loaded_pool [5, 6] [0, 3] 5 5)) \<and>
   page_number (shared (backend_start (loaded_pool [5, 6] [0, 3] 5 5))) 1 \<noteq>
     latest_page_number (shared (backend_start (loaded_pool [5, 6] [0, 3] 5 5)))"
proof -
  let ?w = "backend_start (loaded_pool [5, 6] [0, 3] 4 5)"
  have f: "SlruFindPage (shared ?w) 9 = None"
    by (simp add: SlruFindPage_def loaded_pool_def SimpleLruInit_def backend_start_def upt_rec)
  have e: "\<forall>i<num_slots (shared ?w). page_status (shared ?w) i \<noteq> SLRU_PAGE_EMPTY"
    by (simp add: loaded_pool_def SimpleLruInit_def backend_start_def)
  have x: "\<exists>i<num_slots (shared ?w). page_number (shared ?w) i \<noteq> latest_page_number (shared ?w)"
    by (rule exI [of _ 1]) (simp add: loaded_pool_def SimpleLruInit_def backend_start_def)
  from SlruSelectLRUPage_spares_latest [OF f e x select_ex1]
  have "page_number (shared (backend_start (loaded_pool [5, 6] [0, 3] 5 5))) 1 \<noteq>
     latest_page_number (shared (backend_start (loaded_pool [5, 6] [0, 3] 5 5)))"
    by blast
  with f select_ex1 show ?thesis
    by (simp add: loaded_pool_def SimpleLruInit_def backend_start_def)
qed

text \<open>
  The failing input. In a pool of one slot that holds the latest page, clean, a request
  for another page gets that slot, although the comment above the loop says that in no
  case the slot containing \<open>latest_page_number\<close> is selected for replacement.
\<close>

theorem SlruSelectLRUPage_spares_latest_counterexample:
  "SlruFindPage (shared (backend_start (loaded_pool [5] [0] 0 5))) 6 = None \<and>
   num_slots (shared (backend_start (loaded_pool [5] [0] 0 5))) = 1 \<and>
   page_status (shared (backend_start (loaded_pool [5] [0] 0 5))) 0 = SLRU_PAGE_VALID \<and>
   SlruSelectLRUPage clog_ctl 6 (backend_start (loaded_pool [5] [0] 0 5)) =
     Inr (0, backend_start (loaded_pool [5] [0] 1 5)) \<and>
   page_number (shared (backend_start (loaded_pool [5] [0] 1 5))) 0 =
     latest_page_number (shared (backend_start (loaded_pool [5] [0] 1 5)))"
  by (simp add: SlruSelectLRUPage.simps SlruFindPage_def SlruSelectLRUPage_pass_def loaded_pool_def
      SimpleLruInit_def clog_ctl_def SlruSelectLRUPage_step_def Let_def word_sless_alt
      backend_start_def)

text \<open>What every return of \<open>SlruSelectLRUPage\<close> satisfies.\<close>

lemma select_result:
  "\<forall>slot w'. SlruSelectLRUPage ctl pageno w = Inr (slot, w') \<longrightarrow>
     slot < num_slots (shared w) \<and> same_pages (shared w) (shared w') \<and>
     io_weight (shared w') \<le> io_weight (shared w) \<and>
     (SlruFindPage (shared w') pageno = Some slot \<or>
      (SlruFindPage (shared w') pageno = None \<and>
       (page_status (shared w') slot = SLRU_PAGE_EMPTY \<or>
        (page_status (shared w') slot = SLRU_PAGE_VALID \<and> \<not> page_dirty (shared w') slot))))"
proof (induction w rule: SlruSelectLRUPage_induct [where ctl = ctl and pageno = pageno])
  case (hit w slotno)
  from FindPage_Some [OF hit] hit show ?case by (simp add: same_pages_def)
next
  case (empty w slotno best sh')
  note fr = pass_frame [OF empty(2)]
  have f: "SlruFindPage sh' pageno = None"
    using empty(1) fr by (simp add: FindPage_None)
  from pass_Some [OF empty(2)] fr f io_weight_pass [OF empty(2)] show ?case
    by (simp add: same_pages_def)
next
  case (oob w b d p sh')
  show ?case by simp
next
  case (clean w b d p sh')
  note fr = pass_frame [OF clean(2)]
  have f: "SlruFindPage sh' pageno = None"
    using clean(1) fr by (simp add: FindPage_None)
  from pass_none [OF clean(2,3)] fr f io_weight_pass [OF clean(2)] clean(4,5) show ?case
    by (simp add: same_pages_def)
next
  case (write_fail w b d p sh' err)
  show ?case by simp
next
  case (write_ok w b d p sh' fd w2)
  note fr = pass_frame [OF write_ok(2)]
  note sh2 = select_write_shared [OF write_ok(4,5,6)]
  have sp: "same_pages (shared w) (shared w2)" using fr by (simp add: same_pages_def sh2)
  have le: "io_weight (shared w2) \<le> io_weight (shared w)"
    using select_write_decreases [OF write_ok(2,3,4,5,6)] by simp
  show ?case
  proof (intro allI impI)
    fix slot w'
    assume "SlruSelectLRUPage ctl pageno w2 = Inr (slot, w')"
    with write_ok(7) have r: "slot < num_slots (shared w2) \<and> same_pages (shared w2) (shared w') \<and>
     io_weight (shared w') \<le> io_weight (shared w2) \<and>
     (SlruFindPage (shared w') pageno = Some slot \<or>
      (SlruFindPage (shared w') pageno = None \<and>
       (page_status (shared w') slot = SLRU_PAGE_EMPTY \<or>
        (page_status (shared w') slot = SLRU_PAGE_VALID \<and> \<not> page_dirty (shared w') slot))))"
      by blast
    from r sp le same_pages_trans [OF sp] show "slot < num_slots (shared w) \<and> same_pages (shared w) (shared w') \<and>
     io_weight (shared w') \<le> io_weight (shared w) \<and>
     (SlruFindPage (shared w') pageno = Some slot \<or>
      (SlruFindPage (shared w') pageno = None \<and>
       (page_status (shared w') slot = SLRU_PAGE_EMPTY \<or>
        (page_status (shared w') slot = SLRU_PAGE_VALID \<and> \<not> page_dirty (shared w') slot))))"
      by (simp add: same_pages_def)
  qed
next
  case (busy w b d p sh')
  note fr = pass_frame [OF busy(2)]
  let ?w2 = "SimpleLruWaitIO b (w\<lparr>shared := sh'\<rparr>)"
  have sp: "same_pages (shared w) (shared ?w2)"
    using fr by (simp add: same_pages_def WaitIO_shared)
  have "page_status sh' b \<noteq> SLRU_PAGE_VALID" using busy(4) by auto
  from select_wait_decreases [OF busy(2,3) this]
  have le: "io_weight (shared ?w2) \<le> io_weight (shared w)" by simp
  show ?case
  proof (intro allI impI)
    fix slot w'
    assume "SlruSelectLRUPage ctl pageno ?w2 = Inr (slot, w')"
    with busy(5) have r: "slot < num_slots (shared ?w2) \<and> same_pages (shared ?w2) (shared w') \<and>
     io_weight (shared w') \<le> io_weight (shared ?w2) \<and>
     (SlruFindPage (shared w') pageno = Some slot \<or>
      (SlruFindPage (shared w') pageno = None \<and>
       (page_status (shared w') slot = SLRU_PAGE_EMPTY \<or>
        (page_status (shared w') slot = SLRU_PAGE_VALID \<and> \<not> page_dirty (shared w') slot))))"
      by blast
    from r sp le same_pages_trans [OF sp] show "slot < num_slots (shared w) \<and> same_pages (shared w) (shared w') \<and>
     io_weight (shared w') \<le> io_weight (shared w) \<and>
     (SlruFindPage (shared w') pageno = Some slot \<or>
      (SlruFindPage (shared w') pageno = None \<and>
       (page_status (shared w') slot = SLRU_PAGE_EMPTY \<or>
        (page_status (shared w') slot = SLRU_PAGE_VALID \<and> \<not> page_dirty (shared w') slot))))"
      by (simp add: same_pages_def)
  qed
qed

lemma select_then_wait_decreases:
  assumes s: "SlruSelectLRUPage ctl pageno w = Inr (slotno, w1)"
    and st: "page_status (shared w1) slotno = SLRU_PAGE_READ_IN_PROGRESS \<or>
             page_status (shared w1) slotno = SLRU_PAGE_WRITE_IN_PROGRESS"
  shows "io_weight (shared (SimpleLruWaitIO slotno w1)) < io_weight (shared w)"
proof -
  from select_result [of ctl pageno w] s
  have b: "slotno < num_slots (shared w1)" and le: "io_weight (shared w1) \<le> io_weight (shared w)"
    by (auto simp: same_pages_def)
  have "io_weight (shared (SimpleLruWaitIO slotno w1)) < io_weight (shared w1)"
    by (rule io_weight_less [where b = slotno]) (use b st in \<open>auto simp: WaitIO_shared slot_weight_def\<close>)
  with le show ?thesis by simp
qed

subsection \<open>SimpleLruZeroPage, SimpleLruReadPage, SimpleLruReadPage_ReadOnly\<close>

definition set_latest_page_number :: "int32 \<Rightarrow> slru_world \<Rightarrow> slru_world" where
  "set_latest_page_number pageno w = w\<lparr>shared := (shared w)\<lparr>latest_page_number := pageno\<rparr>\<rparr>"

definition SimpleLruZeroPage ::
  "SlruCtlData \<Rightarrow> int32 \<Rightarrow> slru_world \<Rightarrow> (slru_error \<times> slru_world) + (nat \<times> slru_world)" where
  "SimpleLruZeroPage ctl pageno w =
     (case SlruSelectLRUPage ctl pageno w of
        Inl err \<Rightarrow> Inl err
      | Inr (slotno, w1) \<Rightarrow>
          let w2 = set_page_number slotno pageno w1;
              w3 = set_page_status slotno SLRU_PAGE_VALID w2;
              w4 = set_page_dirty slotno True w3;
              w5 = SlruRecentlyUsed slotno w4;
              w6 = set_page_buffer slotno (replicate BLCKSZ 0) w5;
              w7 = SimpleLruZeroLSNs slotno w6;
              w8 = set_latest_page_number pageno w7
          in Inr (slotno, w8))"

text \<open>
  Mark the slot read-busy for the page, take the buffer lock, mark the slot recently used,
  release the control lock: the steps before the physical read in
  \<open>SimpleLruReadPage_Internal\<close> and in \<open>SimpleLruPageExists\<close>.
\<close>

definition SimpleLruReadPage_begin :: "int32 \<Rightarrow> nat \<Rightarrow> slru_world \<Rightarrow> slru_world" where
  "SimpleLruReadPage_begin pageno slotno w =
     (let w1 = set_page_number slotno pageno w;
          w2 = set_page_status slotno SLRU_PAGE_READ_IN_PROGRESS w1;
          w3 = set_page_dirty slotno False w2;
          w4 = LWLockAcquire_buffer slotno LW_EXCLUSIVE w3;
          w5 = SlruRecentlyUsed slotno w4
      in LWLockRelease_ControlLock w5)"

text \<open>
  \<open>SimpleLruReadPage_Internal\<close> from "Mark the slot read-busy" to its return. \<open>valid\<close>
  tells whether the caller passed a pointer; the second component of the result is what
  was stored through it. A slot number is an \<open>int\<close> here because the function can return -1.
\<close>

definition SimpleLruReadPage_read ::
  "SlruCtlData \<Rightarrow> int32 \<Rightarrow> nat \<Rightarrow> TransactionId \<Rightarrow> bool \<Rightarrow> slru_world
     \<Rightarrow> (slru_error \<times> slru_world) + ((int \<times> bool option) \<times> slru_world)" where
  "SimpleLruReadPage_read ctl pageno slotno xid valid w =
     (case SlruPhysicalReadPage ctl pageno slotno (SimpleLruReadPage_begin pageno slotno w) of
           (ok, w7) \<Rightarrow>
             let w8 = SimpleLruZeroLSNs slotno w7;
                 w9 = LWLockAcquire_ControlLock LW_EXCLUSIVE w8;
                 w10 = set_page_status slotno (if ok then SLRU_PAGE_VALID else SLRU_PAGE_EMPTY) w9;
                 w11 = LWLockRelease_buffer slotno w10
             in if \<not> ok \<and> \<not> valid then Inl (SlruReportIOError pageno xid w11, w11)
                else if valid \<and> \<not> ok then Inr ((- 1, Some False), LWLockRelease_ControlLock w11)
                else Inr ((int slotno, if valid then Some True else None),
                          SlruRecentlyUsed slotno w11))"

function SimpleLruReadPage_Internal ::
  "SlruCtlData \<Rightarrow> int32 \<Rightarrow> bool \<Rightarrow> TransactionId \<Rightarrow> bool \<Rightarrow> slru_world
     \<Rightarrow> (slru_error \<times> slru_world) + ((int \<times> bool option) \<times> slru_world)" where
  "SimpleLruReadPage_Internal ctl pageno write_ok xid valid w =
     (case SlruSelectLRUPage ctl pageno w of
        Inl err \<Rightarrow> Inl err
      | Inr (slotno, w1) \<Rightarrow>
          if page_number (shared w1) slotno = pageno \<and>
             page_status (shared w1) slotno \<noteq> SLRU_PAGE_EMPTY
          then if page_status (shared w1) slotno = SLRU_PAGE_READ_IN_PROGRESS \<or>
                  (page_status (shared w1) slotno = SLRU_PAGE_WRITE_IN_PROGRESS \<and> \<not> write_ok)
               then SimpleLruReadPage_Internal ctl pageno write_ok xid valid (SimpleLruWaitIO slotno w1)
               else Inr ((int slotno, if valid then Some True else None), SlruRecentlyUsed slotno w1)
          else SimpleLruReadPage_read ctl pageno slotno xid valid w1)"
  by pat_completeness auto
termination
proof (relation "measure (\<lambda>(ctl, pageno, write_ok, xid, valid, w). io_weight (shared w))", goal_cases)
  case 1
  show ?case by simp
next
  case (2 ctl pageno write_ok xid valid w x2 slotno w1)
  then have "SlruSelectLRUPage ctl pageno w = Inr (slotno, w1)" by simp
  from select_then_wait_decreases [OF this] 2 show ?case by auto
qed

declare SimpleLruReadPage_Internal.simps [simp del]

definition SimpleLruReadPage ::
  "SlruCtlData \<Rightarrow> int32 \<Rightarrow> bool \<Rightarrow> TransactionId \<Rightarrow> slru_world
     \<Rightarrow> (slru_error \<times> slru_world) + ((int \<times> bool option) \<times> slru_world)" where
  "SimpleLruReadPage ctl pageno write_ok xid w =
     SimpleLruReadPage_Internal ctl pageno write_ok xid False w"

text \<open>The first slot that \<open>SimpleLruReadPage_ReadOnly\<close> accepts under the shared lock.\<close>

definition ReadOnly_hit :: "SlruSharedData \<Rightarrow> int32 \<Rightarrow> nat option" where
  "ReadOnly_hit sh pageno =
     find (\<lambda>slotno. page_number sh slotno = pageno \<and> page_status sh slotno \<noteq> SLRU_PAGE_EMPTY \<and>
                     page_status sh slotno \<noteq> SLRU_PAGE_READ_IN_PROGRESS)
       [0..<num_slots sh]"

definition SimpleLruReadPage_ReadOnly ::
  "SlruCtlData \<Rightarrow> int32 \<Rightarrow> TransactionId \<Rightarrow> bool \<Rightarrow> slru_world
     \<Rightarrow> (slru_error \<times> slru_world) + ((int \<times> bool option) \<times> slru_world)" where
  "SimpleLruReadPage_ReadOnly ctl pageno xid valid w =
     (let w1 = LWLockAcquire_ControlLock LW_SHARED w
      in case ReadOnly_hit (shared w1) pageno of
           Some slotno \<Rightarrow>
             Inr ((int slotno, if valid then Some True else None), SlruRecentlyUsed slotno w1)
         | None \<Rightarrow>
             let w2 = LWLockRelease_ControlLock w1;
                 w3 = LWLockAcquire_ControlLock LW_EXCLUSIVE w2
             in SimpleLruReadPage_Internal ctl pageno True xid valid w3)"

subsection \<open>SimpleLruPageExists\<close>

definition SimpleLruPageExists_read ::
  "SlruCtlData \<Rightarrow> int32 \<Rightarrow> nat \<Rightarrow> slru_world \<Rightarrow> bool \<times> slru_world" where
  "SimpleLruPageExists_read ctl pageno slotno w =
     (case SlruPhysicalReadPage ctl pageno slotno (SimpleLruReadPage_begin pageno slotno w) of
           (ok, w7) \<Rightarrow>
             let w8 = LWLockAcquire_ControlLock LW_EXCLUSIVE w7;
                 w9 = set_page_status slotno (if ok then SLRU_PAGE_VALID else SLRU_PAGE_EMPTY) w8;
                 w10 = LWLockRelease_buffer slotno w9
             in (ok, w10))"

function SimpleLruPageExists ::
  "SlruCtlData \<Rightarrow> int32 \<Rightarrow> slru_world \<Rightarrow> (slru_error \<times> slru_world) + (bool \<times> slru_world)" where
  "SimpleLruPageExists ctl pageno w =
     (case SlruSelectLRUPage ctl pageno w of
        Inl err \<Rightarrow> Inl err
      | Inr (slotno, w1) \<Rightarrow>
          if page_number (shared w1) slotno = pageno \<and>
             page_status (shared w1) slotno \<noteq> SLRU_PAGE_EMPTY
          then if page_status (shared w1) slotno = SLRU_PAGE_READ_IN_PROGRESS
               then SimpleLruPageExists ctl pageno (SimpleLruWaitIO slotno w1)
               else Inr (True, w1)
          else Inr (SimpleLruPageExists_read ctl pageno slotno w1))"
  by pat_completeness auto
termination
proof (relation "measure (\<lambda>(ctl, pageno, w). io_weight (shared w))", goal_cases)
  case 1
  show ?case by simp
next
  case (2 ctl pageno w x2 slotno w1)
  then have "SlruSelectLRUPage ctl pageno w = Inr (slotno, w1)" by simp
  from select_then_wait_decreases [OF this] 2 show ?case by auto
qed

declare SimpleLruPageExists.simps [simp del]

subsection \<open>SimpleLruFlush\<close>

text \<open>The flush table on entry: \<open>num_files = 0\<close>; the arrays are not read beyond it.\<close>

definition SlruFlushData_start :: SlruFlushData where
  "SlruFlushData_start =
     \<lparr>num_files = 0, mirroredOpens = (\<lambda>i. \<lparr>isActive = False, fileName = []\<rparr>), segno = (\<lambda>i. 0)\<rparr>"

fun SimpleLruFlush_write ::
  "SlruCtlData \<Rightarrow> nat list \<Rightarrow> SlruFlushData \<Rightarrow> slru_world
     \<Rightarrow> (slru_error \<times> slru_world) + (SlruFlushData \<times> slru_world)" where
  "SimpleLruFlush_write ctl [] fd w = Inr (fd, w)"
| "SimpleLruFlush_write ctl (slotno # rest) fd w =
     (case SimpleLruWritePage ctl slotno (Some fd) w of
        Inl err \<Rightarrow> Inl err
      | Inr (fdata, w') \<Rightarrow>
          SimpleLruFlush_write ctl rest (case fdata of None \<Rightarrow> fd | Some fd' \<Rightarrow> fd') w')"

text \<open>
  The loop that fsyncs and closes the files of the flush table, with the local variables
  \<open>ok\<close> and \<open>pageno\<close>.
\<close>

fun SimpleLruFlush_fsync ::
  "SlruCtlData \<Rightarrow> SlruFlushData \<Rightarrow> nat list \<Rightarrow> bool \<times> int32 \<Rightarrow> slru_world
     \<Rightarrow> (bool \<times> int32) \<times> slru_world" where
  "SimpleLruFlush_fsync ctl fd [] acc w = (acc, w)"
| "SimpleLruFlush_fsync ctl fd (i # rest) (ok, pageno) w =
     (if do_fsync ctl
      then (case MirroredFlatFile_Flush (mirroredOpens fd i) w of
              (False, w') \<Rightarrow>
                SimpleLruFlush_fsync ctl fd rest (False, segno fd i * SLRU_PAGES_PER_SEGMENT)
                  (save_error SLRU_FSYNC_FAILED w')
            | (True, w') \<Rightarrow> SimpleLruFlush_fsync ctl fd rest (ok, pageno) w')
      else SimpleLruFlush_fsync ctl fd rest (ok, pageno) w)"

definition SimpleLruFlush ::
  "SlruCtlData \<Rightarrow> bool \<Rightarrow> slru_world \<Rightarrow> (slru_error \<times> slru_world) + slru_world" where
  "SimpleLruFlush ctl checkpoint w =
     (let w1 = LWLockAcquire_ControlLock LW_EXCLUSIVE w
      in case SimpleLruFlush_write ctl [0..<num_slots (shared w1)] SlruFlushData_start w1 of
           Inl err \<Rightarrow> Inl err
         | Inr (fd, w2) \<Rightarrow>
             let w3 = LWLockRelease_ControlLock w2
             in case SimpleLruFlush_fsync ctl fd [0..<num_files fd] (True, 0) w3 of
                  ((ok, pageno), w4) \<Rightarrow>
                    if \<not> ok then Inl (SlruReportIOError pageno 0 w4, w4) else Inr w4)"

subsection \<open>SlruScanDirectory and SimpleLruTruncate\<close>

text \<open>
  Modelled from the spec: \<open>SLRU_FILENAME_LEN\<close> is declared outside src/; the spec gives
  segment names of four hexadecimal digits.
\<close>

definition SLRU_FILENAME_LEN :: nat where
  "SLRU_FILENAME_LEN = 4"

definition isSlruFileName :: "string \<Rightarrow> bool" where
  "isSlruFileName d_name \<longleftrightarrow>
     length d_name = SLRU_FILENAME_LEN \<and>
     length (takeWhile (\<lambda>c. c \<in> set ''0123456789ABCDEF'') d_name) = SLRU_FILENAME_LEN"

text \<open>\<open>(int) strtol(name, NULL, 16)\<close> on a name of upper-case hexadecimal digits.\<close>

definition hex_value :: "char \<Rightarrow> nat" where
  "hex_value c = length (takeWhile (\<lambda>d. d \<noteq> c) ''0123456789ABCDEF'')"

definition strtol16 :: "string \<Rightarrow> int32" where
  "strtol16 name = word_of_nat (foldl (\<lambda>acc c. acc * 16 + hex_value c) 0 name)"

fun SlruScanDirectory_loop ::
  "SlruCtlData \<Rightarrow> int32 \<Rightarrow> bool \<Rightarrow> string list \<Rightarrow> bool \<Rightarrow> slru_world \<Rightarrow> bool \<times> slru_world" where
  "SlruScanDirectory_loop ctl cutoffPage doDeletions [] found w = (found, w)"
| "SlruScanDirectory_loop ctl cutoffPage doDeletions (d_name # rest) found w =
     (if isSlruFileName d_name \<and>
         PagePrecedes ctl (strtol16 d_name * SLRU_PAGES_PER_SEGMENT) cutoffPage
      then SlruScanDirectory_loop ctl cutoffPage doDeletions rest True
             (if doDeletions
              then MirroredFlatFile_Drop d_name
                     (w\<lparr>server_log := server_log w @ [DEBUG2_removing_file d_name]\<rparr>)
              else w)
      else SlruScanDirectory_loop ctl cutoffPage doDeletions rest found w)"

definition SlruScanDirectory ::
  "SlruCtlData \<Rightarrow> int32 \<Rightarrow> bool \<Rightarrow> slru_world \<Rightarrow> bool \<times> slru_world" where
  "SlruScanDirectory ctl cutoffPage doDeletions w =
     (let cutoff = cutoffPage - c_mod cutoffPage SLRU_PAGES_PER_SEGMENT
      in SlruScanDirectory_loop ctl cutoff doDeletions (map fst (directory w)) False w)"

text \<open>
  The \<open>for\<close> loop of \<open>SimpleLruTruncate_internal\<close> over the slots still to visit. The
  result \<open>True\<close> stands for \<open>goto restart\<close>, \<open>False\<close> for the end of the loop.
\<close>

fun SimpleLruTruncate_slots ::
  "SlruCtlData \<Rightarrow> int32 \<Rightarrow> nat list \<Rightarrow> slru_world \<Rightarrow> (slru_error \<times> slru_world) + (bool \<times> slru_world)" where
  "SimpleLruTruncate_slots ctl cutoffPage [] w = Inr (False, w)"
| "SimpleLruTruncate_slots ctl cutoffPage (slotno # rest) w =
     (if page_status (shared w) slotno = SLRU_PAGE_EMPTY
      then SimpleLruTruncate_slots ctl cutoffPage rest w
      else if \<not> PagePrecedes ctl (page_number (shared w) slotno) cutoffPage
      then SimpleLruTruncate_slots ctl cutoffPage rest w
      else if page_status (shared w) slotno = SLRU_PAGE_VALID \<and> \<not> page_dirty (shared w) slotno
      then SimpleLruTruncate_slots ctl cutoffPage rest (set_page_status slotno SLRU_PAGE_EMPTY w)
      else if page_status (shared w) slotno = SLRU_PAGE_VALID
      then (case SimpleLruWritePage ctl slotno None w of
              Inl err \<Rightarrow> Inl err
            | Inr (fdata, w') \<Rightarrow> Inr (True, w'))
      else Inr (True, SimpleLruWaitIO slotno w))"

lemma write_dirty_shared:
  assumes v: "page_status (shared w) b = SLRU_PAGE_VALID" and dirty: "page_dirty (shared w) b"
    and wr: "SimpleLruWritePage ctl b None w = Inr (fd, w2)"
  shows "shared w2 = (shared w)\<lparr>page_dirty := (page_dirty (shared w))(b := False)\<rparr>"
proof -
  have "w\<lparr>shared := shared w\<rparr> = w" by simp
  with select_write_shared [of "shared w" b ctl w fd w2] v dirty wr show ?thesis by simp
qed

lemma Truncate_slots_restart:
  assumes "SimpleLruTruncate_slots ctl cutoffPage slots w = Inr (True, w')"
    and "\<forall>i\<in>set slots. i < num_slots (shared w)"
  shows "io_weight (shared w') < io_weight (shared w)"
  using assms
proof (induction slots arbitrary: w)
  case Nil
  then show ?case by simp
next
  case (Cons slotno rest)
  let ?sh = "shared w"
  from Cons.prems(2) have b: "slotno < num_slots ?sh" and r: "\<forall>i\<in>set rest. i < num_slots ?sh"
    by simp_all
  consider (skip) "page_status ?sh slotno = SLRU_PAGE_EMPTY \<or>
        \<not> PagePrecedes ctl (page_number ?sh slotno) cutoffPage"
    | (clean) "page_status ?sh slotno = SLRU_PAGE_VALID" "\<not> page_dirty ?sh slotno"
        "PagePrecedes ctl (page_number ?sh slotno) cutoffPage"
    | (dirty) "page_status ?sh slotno = SLRU_PAGE_VALID" "page_dirty ?sh slotno"
        "PagePrecedes ctl (page_number ?sh slotno) cutoffPage"
    | (busy) "page_status ?sh slotno = SLRU_PAGE_READ_IN_PROGRESS \<or>
        page_status ?sh slotno = SLRU_PAGE_WRITE_IN_PROGRESS"
        "PagePrecedes ctl (page_number ?sh slotno) cutoffPage"
    by (cases "page_status ?sh slotno") auto
  then show ?case
  proof cases
    case skip
    with Cons.prems(1) have "SimpleLruTruncate_slots ctl cutoffPage rest w = Inr (True, w')"
      by (auto split: if_splits)
    from Cons.IH [OF this r] show ?thesis .
  next
    case clean
    let ?w1 = "set_page_status slotno SLRU_PAGE_EMPTY w"
    from clean Cons.prems(1) have "SimpleLruTruncate_slots ctl cutoffPage rest ?w1 = Inr (True, w')"
      by simp
    moreover have "\<forall>i\<in>set rest. i < num_slots (shared ?w1)"
      using r by (simp add: set_page_status_def)
    ultimately have "io_weight (shared w') < io_weight (shared ?w1)" by (rule Cons.IH)
    moreover have "io_weight (shared ?w1) \<le> io_weight ?sh"
      by (rule io_weight_le) (use clean in \<open>auto simp: set_page_status_def slot_weight_def\<close>)
    ultimately show ?thesis by simp
  next
    case dirty
    with Cons.prems(1) obtain fd where wr: "SimpleLruWritePage ctl slotno None w = Inr (fd, w')"
      by (auto split: sum.splits)
    note sh2 = write_dirty_shared [OF dirty(1,2) wr]
    show ?thesis
      by (rule io_weight_less [where b = slotno]) (use b dirty in \<open>simp_all add: sh2 slot_weight_def\<close>)
  next
    case busy
    with Cons.prems(1) have w': "w' = SimpleLruWaitIO slotno w"
      by auto
    show ?thesis unfolding w'
      by (rule io_weight_less [where b = slotno]) (use b busy in \<open>auto simp: WaitIO_shared slot_weight_def\<close>)
  qed
qed

text \<open>
  \<open>SimpleLruTruncate_internal\<close> from the label \<open>restart\<close> on, with the rounded cutoff.
\<close>

function SimpleLruTruncate_restart ::
  "SlruCtlData \<Rightarrow> int32 \<Rightarrow> bool \<Rightarrow> slru_world \<Rightarrow> (slru_error \<times> slru_world) + slru_world" where
  "SimpleLruTruncate_restart ctl cutoffPage lockHeld w =
     (if PagePrecedes ctl (latest_page_number (shared w)) cutoffPage
      then Inr ((if lockHeld then w else LWLockRelease_ControlLock w)
                  \<lparr>server_log := server_log w @ [LOG_apparent_wraparound (Dir ctl)]\<rparr>)
      else (case SimpleLruTruncate_slots ctl cutoffPage [0..<num_slots (shared w)] w of
              Inl err \<Rightarrow> Inl err
            | Inr (True, w') \<Rightarrow> SimpleLruTruncate_restart ctl cutoffPage lockHeld w'
            | Inr (False, w') \<Rightarrow>
                Inr (snd (SlruScanDirectory ctl cutoffPage True
                            (if lockHeld then w' else LWLockRelease_ControlLock w')))))"
  by pat_completeness auto
termination
proof (relation "measure (\<lambda>(ctl, cutoffPage, lockHeld, w). io_weight (shared w))", goal_cases)
  case 1
  show ?case by simp
next
  case (2 ctl cutoffPage lockHeld w x2 x1 w')
  then have "SimpleLruTruncate_slots ctl cutoffPage [0..<num_slots (shared w)] w = Inr (True, w')"
    by simp
  from Truncate_slots_restart [OF this] show ?case by simp
qed

declare SimpleLruTruncate_restart.simps [simp del]

definition SimpleLruTruncate_internal ::
  "SlruCtlData \<Rightarrow> int32 \<Rightarrow> bool \<Rightarrow> slru_world \<Rightarrow> (slru_error \<times> slru_world) + slru_world" where
  "SimpleLruTruncate_internal ctl cutoffPage lockHeld w =
     (let cutoff = cutoffPage - c_mod cutoffPage SLRU_PAGES_PER_SEGMENT;
          w1 = (if lockHeld then w else LWLockAcquire_ControlLock LW_EXCLUSIVE w)
      in SimpleLruTruncate_restart ctl cutoff lockHeld w1)"

definition SimpleLruTruncate :: "SlruCtlData \<Rightarrow> int32 \<Rightarrow> slru_world \<Rightarrow> (slru_error \<times> slru_world) + slru_world" where
  "SimpleLruTruncate ctl cutoffPage w = SimpleLruTruncate_internal ctl cutoffPage False w"

definition SimpleLruTruncateWithLock :: "SlruCtlData \<Rightarrow> int32 \<Rightarrow> slru_world \<Rightarrow> (slru_error \<times> slru_world) + slru_world" where
  "SimpleLruTruncateWithLock ctl cutoffPage w = SimpleLruTruncate_internal ctl cutoffPage True w"

subsection \<open>Truncation\<close>











text \<open>
  The spec's words for the cutoff that truncation applies: the cutoff page rounded down to
  its segment boundary. The source computes \<open>cutoffPage - cutoffPage % SLRU_PAGES_PER_SEGMENT\<close>
  with the remainder of C, which rounds towards zero; the two agree for a page number that
  is not negative as an \<open>int\<close>.
\<close>

definition cutoff_rounded_down :: "int32 \<Rightarrow> int32" where
  "cutoff_rounded_down cutoffPage = word_of_int (sint cutoffPage - sint cutoffPage mod 32)"

lemma cutoff_rounded_down_nonneg:
  assumes "\<not> cutoffPage <s 0"
  shows "cutoffPage - c_mod cutoffPage SLRU_PAGES_PER_SEGMENT = cutoff_rounded_down cutoffPage"
proof -
  from assms have "0 \<le> sint cutoffPage" by (simp add: word_sless_alt)
  then have "sint cutoffPage smod 32 = sint cutoffPage mod 32"
    by (simp add: signed_modulo_int_def sgn_if)
  then show ?thesis
    by (simp add: c_mod_def SLRU_PAGES_PER_SEGMENT_def cutoff_rounded_down_def)
qed















subsection \<open>Failures of the physical read and write\<close>

text \<open>A physical read changes nothing in shared memory but the buffer of its slot.\<close>

definition read_frame :: "nat \<Rightarrow> slru_world \<Rightarrow> slru_world \<Rightarrow> bool" where
  "read_frame slotno w w' \<longleftrightarrow>
     (\<exists>buf. shared w' = (shared w)\<lparr>page_buffer := (page_buffer (shared w))(slotno := buf)\<rparr>) \<and>
     ControlLock w' = ControlLock w \<and> buffer_locks w' = buffer_locks w \<and>
     InRecovery w' = InRecovery w \<and> directory w' = directory w"

lemma read_frame_refl [simp]: "read_frame slotno w w"
  unfolding read_frame_def by (auto intro: exI [of _ "page_buffer (shared w) slotno"])

lemma read_frame_trans: "read_frame s w w1 \<Longrightarrow> read_frame s w1 w2 \<Longrightarrow> read_frame s w w2"
  unfolding read_frame_def by auto

lemma read_frame_same: "same_memory w w' \<Longrightarrow> directory w' = directory w \<Longrightarrow> read_frame s w w'"
  unfolding read_frame_def same_memory_def
  by (auto intro: exI [of _ "page_buffer (shared w) s"])

lemma take_fault_frame: "take_fault w = (f, w') \<Longrightarrow> read_frame s w w'"
  by (auto simp: take_fault_def read_frame_def split: list.splits
      intro: exI [of _ "page_buffer (shared w) s"])

lemma read_frame_errno [simp]: "read_frame s w (w'\<lparr>errno := e\<rparr>) = read_frame s w w'"
  by (simp add: read_frame_def)

lemma BasicOpenFile_frame: "BasicOpenFile path w = (ok, w') \<Longrightarrow> read_frame s w w'"
  unfolding BasicOpenFile_def
  by (cases "take_fault w")
     (auto dest!: take_fault_frame [where s = s] simp: read_frame_def split: option.splits if_splits)

lemma c_lseek_frame: "c_lseek off w = (ok, w') \<Longrightarrow> read_frame s w w'"
  unfolding c_lseek_def
  by (cases "take_fault w")
     (auto dest!: take_fault_frame [where s = s] split: option.splits if_splits)

lemma c_read_frame: "c_read path off w = (r, w') \<Longrightarrow> read_frame s w w'"
  unfolding c_read_def
  by (cases "take_fault w")
     (auto dest!: take_fault_frame [where s = s] split: option.splits if_splits)

lemma c_close_frame: "c_close w = (ok, w') \<Longrightarrow> read_frame s w w'"
  unfolding c_close_def
  by (cases "take_fault w")
     (auto dest!: take_fault_frame [where s = s] split: option.splits if_splits)

lemma read_frame_save_error [simp]: "read_frame s w (save_error c w') = read_frame s w w'"
  by (simp add: read_frame_def save_error_def)

lemma read_frame_log [simp]: "read_frame s w (w'\<lparr>server_log := l\<rparr>) = read_frame s w w'"
  by (simp add: read_frame_def)

lemma read_frame_buffer: "read_frame s w w' \<Longrightarrow> read_frame s w (set_page_buffer s buf w')"
  unfolding read_frame_def set_page_buffer_def by auto

lemma c_close_snd_frame: "read_frame s w w1 \<Longrightarrow> read_frame s w (snd (c_close w1))"
  by (cases "c_close w1") (auto dest: c_close_frame [where s = s] intro: read_frame_trans)

lemma PhysicalRead_frame:
  assumes "SlruPhysicalReadPage ctl pageno slotno w = (ok, w')"
  shows "read_frame slotno w w'"
proof -
  define path where "path = SlruSimpleFileName (c_div pageno SLRU_PAGES_PER_SEGMENT)"
  define offset where "offset = c_mod pageno SLRU_PAGES_PER_SEGMENT * word_of_nat BLCKSZ"
  obtain o1 w1 where op: "BasicOpenFile path w = (o1, w1)" by (cases "BasicOpenFile path w")
  note f1 = BasicOpenFile_frame [OF op, of slotno]
  show ?thesis
  proof (cases o1)
    case False
    with assms op f1 show ?thesis
      by (auto simp: SlruPhysicalReadPage_def Let_def path_def [symmetric] intro: read_frame_buffer
          split: if_splits)
  next
    case True
    obtain o2 w2 where sk: "c_lseek offset w1 = (o2, w2)" by (cases "c_lseek offset w1")
    note f2 = read_frame_trans [OF f1 c_lseek_frame [OF sk]]
    show ?thesis
    proof (cases o2)
      case False
      with assms op True sk c_close_snd_frame [of slotno w "save_error SLRU_SEEK_FAILED w2"] f2
      show ?thesis
        by (auto simp: SlruPhysicalReadPage_def Let_def path_def [symmetric] offset_def [symmetric])
    next
      case o2: True
      obtain r w3 where rd: "c_read path offset w2 = (r, w3)" by (cases "c_read path offset w2")
      note f3 = read_frame_trans [OF f2 c_read_frame [OF rd]]
      show ?thesis
      proof (cases r)
        case None
        with assms op True sk o2 rd c_close_snd_frame [of slotno w "save_error SLRU_READ_FAILED w3"] f3
        show ?thesis
          by (auto simp: SlruPhysicalReadPage_def Let_def path_def [symmetric] offset_def [symmetric])
      next
        case (Some bytes)
        let ?w4 = "set_page_buffer slotno
            (bytes @ drop (length bytes) (page_buffer (shared w3) slotno)) w3"
        have f4: "read_frame slotno w ?w4" by (rule read_frame_buffer [OF f3])
        obtain o5 w5 where cl: "c_close ?w4 = (o5, w5)" by (cases "c_close ?w4")
        note f5 = read_frame_trans [OF f4 c_close_frame [OF cl]]
        show ?thesis
        proof (cases "length bytes = BLCKSZ")
          case len: True
          from len op True sk o2 rd Some cl
          have "SlruPhysicalReadPage ctl pageno slotno w =
              (if o5 then (True, w5) else (False, save_error SLRU_CLOSE_FAILED w5))"
            by (simp add: SlruPhysicalReadPage_def Let_def path_def [symmetric] offset_def [symmetric])
          with assms f5 show ?thesis by (auto split: if_splits)
        next
          case len: False
          from len op True sk o2 rd Some
          have "SlruPhysicalReadPage ctl pageno slotno w =
              (False, snd (c_close (save_error SLRU_READ_FAILED ?w4)))"
            by (simp add: SlruPhysicalReadPage_def Let_def path_def [symmetric] offset_def [symmetric])
          with assms c_close_snd_frame [of slotno w "save_error SLRU_READ_FAILED ?w4"] f4
          show ?thesis by auto
        qed
      qed
    qed
  qed
qed

text \<open>
  Claim C8. When \<open>BasicOpenFile\<close> fails on the segment file of the page: if the errno is
  \<open>ENOENT\<close> and the backend is in recovery, \<open>SlruPhysicalReadPage\<close> returns true and the
  buffer of the slot is \<open>BLCKSZ\<close> zero bytes; otherwise it returns false with
  \<open>slru_errcause = SLRU_OPEN_FAILED\<close> and the errno of the failed open saved in \<open>slru_errno\<close>.
\<close>

theorem SlruPhysicalReadPage_open_failed:
  assumes "BasicOpenFile (SlruSimpleFileName (c_div pageno SLRU_PAGES_PER_SEGMENT)) w = (False, w1)"
  shows "if errno w1 = ENOENT \<and> InRecovery w
         then fst (SlruPhysicalReadPage ctl pageno slotno w) \<and>
              page_buffer (shared (snd (SlruPhysicalReadPage ctl pageno slotno w))) slotno =
                replicate BLCKSZ 0
         else \<not> fst (SlruPhysicalReadPage ctl pageno slotno w) \<and>
              slru_errcause (snd (SlruPhysicalReadPage ctl pageno slotno w)) = SLRU_OPEN_FAILED \<and>
              slru_errno (snd (SlruPhysicalReadPage ctl pageno slotno w)) = errno w1"
proof -
  from BasicOpenFile_frame [OF assms, of slotno] have "InRecovery w1 = InRecovery w"
    by (simp add: read_frame_def)
  with assms show ?thesis
    by (simp add: SlruPhysicalReadPage_def Let_def save_error_def set_page_buffer_def)
qed

text \<open>A pool of four empty slots in recovery, over an empty directory.\<close>

definition recovering :: slru_world where
  "recovering = (backend_start (SimpleLruInit 4 0))\<lparr>InRecovery := True\<rparr>"

theorem SlruPhysicalReadPage_open_failed_witness:
  "BasicOpenFile (SlruSimpleFileName (c_div 5 SLRU_PAGES_PER_SEGMENT)) recovering =
     (False, recovering\<lparr>errno := ENOENT\<rparr>) \<and>
   fst (SlruPhysicalReadPage clog_ctl 5 0 recovering) \<and>
   page_buffer (shared (snd (SlruPhysicalReadPage clog_ctl 5 0 recovering))) 0 = replicate BLCKSZ 0 \<and>
   BasicOpenFile (SlruSimpleFileName (c_div 5 SLRU_PAGES_PER_SEGMENT))
     (recovering\<lparr>io_faults := [Some 13]\<rparr>) =
     (False, recovering\<lparr>io_faults := [], errno := 13\<rparr>) \<and>
   \<not> fst (SlruPhysicalReadPage clog_ctl 5 0 (recovering\<lparr>io_faults := [Some 13]\<rparr>)) \<and>
   slru_errcause (snd (SlruPhysicalReadPage clog_ctl 5 0 (recovering\<lparr>io_faults := [Some 13]\<rparr>))) =
     SLRU_OPEN_FAILED \<and>
   slru_errno (snd (SlruPhysicalReadPage clog_ctl 5 0 (recovering\<lparr>io_faults := [Some 13]\<rparr>))) = 13"
proof -
  have o1: "BasicOpenFile (SlruSimpleFileName (c_div 5 SLRU_PAGES_PER_SEGMENT)) recovering =
     (False, recovering\<lparr>errno := ENOENT\<rparr>)"
    by (simp add: BasicOpenFile_def take_fault_def recovering_def backend_start_def)
  have o2: "BasicOpenFile (SlruSimpleFileName (c_div 5 SLRU_PAGES_PER_SEGMENT))
     (recovering\<lparr>io_faults := [Some 13]\<rparr>) = (False, recovering\<lparr>io_faults := [], errno := 13\<rparr>)"
    by (simp add: BasicOpenFile_def take_fault_def recovering_def backend_start_def)
  have r: "InRecovery recovering" by (simp add: recovering_def)
  from SlruPhysicalReadPage_open_failed [OF o1, of clog_ctl 0]
    SlruPhysicalReadPage_open_failed [OF o2, of clog_ctl 0] r o1 o2
  show ?thesis by (simp add: ENOENT_def)
qed

lemma ReadPage_read_status:
  "SimpleLruReadPage_read ctl pageno slotno xid valid w = Inl (err, w') \<Longrightarrow>
     page_status (shared w') slotno = SLRU_PAGE_EMPTY \<and> \<not> valid"
  "SimpleLruReadPage_read ctl pageno slotno xid valid w = Inr ((r, v), w') \<Longrightarrow>
     (if r = - 1 then page_status (shared w') slotno = SLRU_PAGE_EMPTY \<and> v = Some False \<and> valid \<and>
                      ControlLock w' = None
      else r = int slotno \<and> page_status (shared w') slotno = SLRU_PAGE_VALID \<and>
           v = (if valid then Some True else None) \<and> ControlLock w' = Some LW_EXCLUSIVE)"
proof -
  obtain ok w7 where rd: "SlruPhysicalReadPage ctl pageno slotno (SimpleLruReadPage_begin pageno slotno w) = (ok, w7)"
    by (cases "SlruPhysicalReadPage ctl pageno slotno (SimpleLruReadPage_begin pageno slotno w)")
  show "SimpleLruReadPage_read ctl pageno slotno xid valid w = Inl (err, w') \<Longrightarrow>
     page_status (shared w') slotno = SLRU_PAGE_EMPTY \<and> \<not> valid"
    by (auto simp: SimpleLruReadPage_read_def rd Let_def set_page_status_def
        LWLockRelease_buffer_def LWLockAcquire_ControlLock_def split: if_splits)
  show "SimpleLruReadPage_read ctl pageno slotno xid valid w = Inr ((r, v), w') \<Longrightarrow>
     (if r = - 1 then page_status (shared w') slotno = SLRU_PAGE_EMPTY \<and> v = Some False \<and> valid \<and>
                      ControlLock w' = None
      else r = int slotno \<and> page_status (shared w') slotno = SLRU_PAGE_VALID \<and>
           v = (if valid then Some True else None) \<and> ControlLock w' = Some LW_EXCLUSIVE)"
    by (auto simp: SimpleLruReadPage_read_def rd Let_def set_page_status_def
        LWLockRelease_buffer_def LWLockAcquire_ControlLock_def LWLockRelease_ControlLock_def
        SlruRecentlyUsed_def split: if_splits)
qed


text \<open>A dirty page 5 in slot 0 of a two-slot pool; the next system call fails with EIO.\<close>

definition dirty_page_io_error :: slru_world where
  "dirty_page_io_error =
     (backend_start ((loaded_pool [5, 6] [0, 3] 4 6)\<lparr>page_dirty := (\<lambda>slotno. slotno = 0)\<rparr>))
       \<lparr>ControlLock := Some LW_EXCLUSIVE, io_faults := [Some 5]\<rparr>"


subsection \<open>Failing fsyncs in SimpleLruFlush\<close>

text \<open>The answer planned for the \<open>k\<close>-th system call from now.\<close>

definition fault_at :: "slru_world \<Rightarrow> nat \<Rightarrow> int option" where
  "fault_at w k = (if k < length (io_faults w) then io_faults w ! k else None)"

lemma Flush_fault:
  assumes "MirroredFlatFile_Flush mfo w = (ok, w')"
  shows "ok = (fault_at w 0 = None) \<and> (\<forall>k. fault_at w' k = fault_at w (Suc k)) \<and>
         (\<not> ok \<longrightarrow> errno w' = the (fault_at w 0)) \<and>
         slru_errno w' = slru_errno w \<and> slru_errcause w' = slru_errcause w"
  using assms
  by (cases "io_faults w")
     (auto simp: MirroredFlatFile_Flush_def take_fault_def fault_at_def split: option.splits)

lemma Flush_fsync_result:
  assumes "SimpleLruFlush_fsync ctl fd idxs (ok, pageno) w = ((ok', pageno'), w')"
    and "do_fsync ctl"
  shows "(ok' \<longleftrightarrow> ok \<and> (\<forall>k<length idxs. fault_at w k = None)) \<and>
         (\<forall>k<length idxs. fault_at w k \<noteq> None \<and> (\<forall>j<length idxs. k < j \<longrightarrow> fault_at w j = None) \<longrightarrow>
            pageno' = segno fd (idxs ! k) * SLRU_PAGES_PER_SEGMENT \<and>
            slru_errcause w' = SLRU_FSYNC_FAILED \<and> slru_errno w' = the (fault_at w k)) \<and>
         ((\<forall>k<length idxs. fault_at w k = None) \<longrightarrow>
            pageno' = pageno \<and> slru_errcause w' = slru_errcause w \<and> slru_errno w' = slru_errno w)"
  using assms(1)
proof (induction idxs arbitrary: ok pageno w)
  case Nil
  then show ?case by simp
next
  case (Cons i rest)
  obtain o1 w1 where fl: "MirroredFlatFile_Flush (mirroredOpens fd i) w = (o1, w1)"
    by (cases "MirroredFlatFile_Flush (mirroredOpens fd i) w")
  note ff = Flush_fault [OF fl]
  from ff have sh: "\<And>k. fault_at w1 k = fault_at w (Suc k)" by blast
  have all_iff: "\<And>P. (\<forall>k<length (i # rest). P k) \<longleftrightarrow> P 0 \<and> (\<forall>k<length rest. P (Suc k))"
    by (auto simp: less_Suc_eq_0_disj)
  show ?case
  proof (cases o1)
    case True
    with Cons.prems fl assms(2)
    have r: "SimpleLruFlush_fsync ctl fd rest (ok, pageno) w1 = ((ok', pageno'), w')" by simp
    note ih = Cons.IH [OF r, unfolded sh]
    from True ff have f0: "fault_at w 0 = None" by simp
    have e: "slru_errno w1 = slru_errno w" "slru_errcause w1 = slru_errcause w" using ff by simp_all
    show ?thesis unfolding all_iff using ih f0 e
      by (auto simp: less_Suc_eq_0_disj)
  next
    case False
    let ?w2 = "save_error SLRU_FSYNC_FAILED w1"
    from False Cons.prems fl assms(2)
    have r: "SimpleLruFlush_fsync ctl fd rest (False, segno fd i * SLRU_PAGES_PER_SEGMENT) ?w2
        = ((ok', pageno'), w')" by simp
    have "\<And>k. fault_at ?w2 k = fault_at w1 k"
      by (simp add: fault_at_def save_error_def)
    then have sh2: "\<And>k. fault_at ?w2 k = fault_at w (Suc k)"
      by (simp only: sh)
    note ih = Cons.IH [OF r, unfolded sh2]
    from False ff have f0: "fault_at w 0 \<noteq> None" and en: "errno w1 = the (fault_at w 0)" by simp_all
    have e: "slru_errno ?w2 = the (fault_at w 0)" "slru_errcause ?w2 = SLRU_FSYNC_FAILED"
      using en by (simp_all add: save_error_def)
    show ?thesis unfolding all_iff using ih f0 e
      by (auto simp: less_Suc_eq_0_disj)
  qed
qed

text \<open>
  Claim C7, as amended. When all pages were written and the pool fsyncs, and the fsync of
  the \<open>k\<close>-th file of the flush table is the last one to fail, with errno \<open>e\<close>,
  \<open>SimpleLruFlush\<close> raises a single I/O error with cause \<open>SLRU_FSYNC_FAILED\<close>, errno \<open>e\<close>
  and the first page of that file's segment: the page of the last failing segment, not of
  the first.
\<close>

theorem SimpleLruFlush_reports_last_failure:
  assumes "SimpleLruFlush_write ctl [0..<num_slots (shared w)] SlruFlushData_start
             (LWLockAcquire_ControlLock LW_EXCLUSIVE w) = Inr (fd, w2)"
    and "do_fsync ctl"
    and "k < num_files fd" and "fault_at w2 k = Some e"
    and "\<forall>j<num_files fd. k < j \<longrightarrow> fault_at w2 j = None"
  shows "case SimpleLruFlush ctl checkpoint w of
           Inl (err, w') \<Rightarrow>
             err = SlruIOError SLRU_FSYNC_FAILED e (segno fd k * SLRU_PAGES_PER_SEGMENT) 0
         | Inr w' \<Rightarrow> False"
proof -
  let ?w3 = "LWLockRelease_ControlLock w2"
  obtain ok' pageno' w4 where fs:
    "SimpleLruFlush_fsync ctl fd [0..<num_files fd] (True, 0) ?w3 = ((ok', pageno'), w4)"
    by (cases "SimpleLruFlush_fsync ctl fd [0..<num_files fd] (True, 0) ?w3") auto
  have fa: "\<And>j. fault_at ?w3 j = fault_at w2 j"
    by (simp add: fault_at_def LWLockRelease_ControlLock_def)
  from Flush_fsync_result [OF fs assms(2), unfolded fa] assms(3,4,5)
  have "\<not> ok'" and "pageno' = segno fd k * SLRU_PAGES_PER_SEGMENT"
    and "slru_errcause w4 = SLRU_FSYNC_FAILED" and "slru_errno w4 = e"
    by auto
  with assms(1) fs show ?thesis
    by (simp add: SimpleLruFlush_def Let_def LWLockAcquire_ControlLock_def SlruReportIOError_def)
qed

text \<open>
  Two dirty pages, 0 and 32, in segments 0000 and 0001. The six system calls that write
  them go through, then both fsyncs fail, with errno 5 and errno 28.
\<close>

definition two_dirty_pages :: slru_world where
  "two_dirty_pages =
     (backend_start ((loaded_pool [0, 32] [0, 1] 1 32)\<lparr>page_dirty := (\<lambda>slotno. True)\<rparr>))
       \<lparr>io_faults := [None, None, None, None, None, None, Some 5, Some 28]\<rparr>"

lemmas run_defs =
  SimpleLruWritePage_def SimpleLruWritePage_write_def SimpleLruWritePage_begin_def
  WritePage_wait_eq SlruPhysicalWritePage_def SlruPhysicalWritePage_io_def
  SlruPhysicalWritePage_wal_def find_open_segment_def MirroredFlatFile_Open_def
  MirroredFlatFile_SeekSet_def MirroredFlatFile_Write_def MirroredFlatFile_Flush_def
  take_fault_def save_error_def SlruReportIOError_def set_page_status_def set_page_dirty_def
  set_page_number_def set_page_buffer_def LWLockAcquire_ControlLock_def
  LWLockRelease_ControlLock_def LWLockAcquire_buffer_def LWLockRelease_buffer_def
  backend_start_def loaded_pool_def SimpleLruInit_def clog_ctl_def c_div_def c_mod_def
  SLRU_PAGES_PER_SEGMENT_def signed_divide_int_def signed_modulo_int_def word_sless_alt
  SlruSimpleFileName_def hex_char_def file_write_at_def MAX_FLUSH_BUFFERS_def Let_def

definition two_dirty_flush_table :: SlruFlushData where
  "two_dirty_flush_table =
     \<lparr>num_files = 2,
      mirroredOpens = (mirroredOpens SlruFlushData_start)
        (0 := \<lparr>isActive = True, fileName = ''0000''\<rparr>,
         1 := \<lparr>isActive = True, fileName = ''0001''\<rparr>),
      segno = (segno SlruFlushData_start)(0 := 0, 1 := 1)\<rparr>"

definition two_dirty_written :: slru_world where
  "two_dirty_written =
     two_dirty_pages
       \<lparr>shared := (shared two_dirty_pages)
          \<lparr>page_status := (page_status (shared two_dirty_pages))
                             (0 := SLRU_PAGE_VALID, 1 := SLRU_PAGE_VALID),
           page_dirty := (page_dirty (shared two_dirty_pages))(0 := False, 1 := False)\<rparr>,
        ControlLock := Some LW_EXCLUSIVE,
        directory := [(''0000'', replicate BLCKSZ 0), (''0001'', replicate BLCKSZ 0)],
        io_faults := [Some 5, Some 28]\<rparr>"

lemma two_dirty_flush_write:
  "SimpleLruFlush_write clog_ctl [0..<num_slots (shared two_dirty_pages)] SlruFlushData_start
     (LWLockAcquire_ControlLock LW_EXCLUSIVE two_dirty_pages) =
   Inr (two_dirty_flush_table, two_dirty_written)"
  by (simp add: two_dirty_pages_def two_dirty_written_def two_dirty_flush_table_def
      SlruFlushData_start_def run_defs upt_rec)

theorem SimpleLruFlush_reports_last_failure_witness:
  "SimpleLruFlush_write clog_ctl [0..<num_slots (shared two_dirty_pages)] SlruFlushData_start
     (LWLockAcquire_ControlLock LW_EXCLUSIVE two_dirty_pages) =
     Inr (two_dirty_flush_table, two_dirty_written) \<and>
   do_fsync clog_ctl \<and> num_files two_dirty_flush_table = 2 \<and>
   fault_at two_dirty_written 1 = Some 28 \<and>
   segno two_dirty_flush_table 1 * SLRU_PAGES_PER_SEGMENT = 32 \<and>
   (case SimpleLruFlush clog_ctl False two_dirty_pages of
      Inl (err, w') \<Rightarrow> err = SlruIOError SLRU_FSYNC_FAILED 28 32 0
    | Inr w' \<Rightarrow> False)"
proof -
  have f: "do_fsync clog_ctl" by (simp add: clog_ctl_def)
  have n: "(1::nat) < num_files two_dirty_flush_table" "num_files two_dirty_flush_table = 2"
    by (simp_all add: two_dirty_flush_table_def)
  have a: "fault_at two_dirty_written 1 = Some 28"
    by (simp add: fault_at_def two_dirty_written_def)
  have l: "\<forall>j<num_files two_dirty_flush_table. 1 < j \<longrightarrow> fault_at two_dirty_written j = None"
    by (simp add: two_dirty_flush_table_def)
  have s: "segno two_dirty_flush_table 1 * SLRU_PAGES_PER_SEGMENT = 32"
    by (simp add: two_dirty_flush_table_def SLRU_PAGES_PER_SEGMENT_def)
  from SimpleLruFlush_reports_last_failure
      [OF two_dirty_flush_write f n(1) a l, of False, unfolded s]
    two_dirty_flush_write f n(2) a s
  show ?thesis by (simp only: simp_thms)
qed

text \<open>
  The claim as stated names the first failing segment. Here the fsync of segment 0 fails
  first (errno 5) and the fsync of segment 1 fails after it (errno 28); the error raised
  carries page 32 and errno 28, those of segment 1.
\<close>

theorem SimpleLruFlush_reports_first_failure_counterexample:
  "fault_at two_dirty_written 0 = Some 5 \<and>
   segno two_dirty_flush_table 0 * SLRU_PAGES_PER_SEGMENT = 0 \<and>
   SimpleLruFlush clog_ctl False two_dirty_pages =
     Inl (SlruIOError SLRU_FSYNC_FAILED 28 32 0,
          two_dirty_written\<lparr>ControlLock := None, errno := 28, slru_errcause := SLRU_FSYNC_FAILED,
                             slru_errno := 28, io_faults := []\<rparr>)"
proof -
  have n: "num_slots (shared (LWLockAcquire_ControlLock LW_EXCLUSIVE two_dirty_pages)) =
      num_slots (shared two_dirty_pages)"
    by (simp add: LWLockAcquire_ControlLock_def)
  have r: "SimpleLruFlush_fsync clog_ctl two_dirty_flush_table
      [0..<num_files two_dirty_flush_table] (True, 0)
      (LWLockRelease_ControlLock two_dirty_written) =
      ((False, 32),
       two_dirty_written\<lparr>ControlLock := None, errno := 28, slru_errcause := SLRU_FSYNC_FAILED,
                             slru_errno := 28, io_faults := []\<rparr>)"
    by (simp add: two_dirty_flush_table_def two_dirty_written_def clog_ctl_def upt_rec
        MirroredFlatFile_Flush_def take_fault_def save_error_def LWLockRelease_ControlLock_def
        SLRU_PAGES_PER_SEGMENT_def)
  have "SimpleLruFlush clog_ctl False two_dirty_pages =
     Inl (SlruIOError SLRU_FSYNC_FAILED 28 32 0,
          two_dirty_written\<lparr>ControlLock := None, errno := 28, slru_errcause := SLRU_FSYNC_FAILED,
                             slru_errno := 28, io_faults := []\<rparr>)"
    unfolding SimpleLruFlush_def Let_def n two_dirty_flush_write
    by (simp add: r SlruReportIOError_def)
  moreover have "fault_at two_dirty_written 0 = Some 5"
    by (simp add: fault_at_def two_dirty_written_def)
  moreover have "segno two_dirty_flush_table 0 * SLRU_PAGES_PER_SEGMENT = 0"
    by (simp add: two_dirty_flush_table_def)
  ultimately show ?thesis by (simp only: simp_thms)
qed

subsection \<open>The control lock at the return of SimpleLruReadPage_ReadOnly\<close>

lemma WritePage_lock:
  assumes "ControlLock w = Some LW_EXCLUSIVE"
  shows "SimpleLruWritePage ctl b fdata w = Inr (fd, w2) \<Longrightarrow> ControlLock w2 = Some LW_EXCLUSIVE"
    and "SimpleLruWritePage ctl b fdata w = Inl (e, w2) \<Longrightarrow> ControlLock w2 = Some LW_EXCLUSIVE"
proof -
  let ?p = "page_number (shared w) b"
  let ?w1 = "SimpleLruWritePage_wait ?p b w"
  have l: "ControlLock ?w1 = Some LW_EXCLUSIVE"
    using assms by (simp add: WritePage_wait_eq WaitIO_other)
  show "SimpleLruWritePage ctl b fdata w = Inr (fd, w2) \<Longrightarrow> ControlLock w2 = Some LW_EXCLUSIVE"
  proof -
    assume "SimpleLruWritePage ctl b fdata w = Inr (fd, w2)"
    then have "SimpleLruWritePage_write ctl ?p b fdata ?w1 = Inr (fd, w2)"
      by (simp add: SimpleLruWritePage_def Let_def)
    from write_Inr [OF this] l show ?thesis by (auto split: if_splits)
  qed
  show "SimpleLruWritePage ctl b fdata w = Inl (e, w2) \<Longrightarrow> ControlLock w2 = Some LW_EXCLUSIVE"
  proof -
    assume "SimpleLruWritePage ctl b fdata w = Inl (e, w2)"
    then have "SimpleLruWritePage_write ctl ?p b fdata ?w1 = Inl (e, w2)"
      by (simp add: SimpleLruWritePage_def Let_def)
    from write_Inl [OF this] show ?thesis by simp
  qed
qed

lemma select_lock:
  "ControlLock w = Some LW_EXCLUSIVE \<longrightarrow>
     (\<forall>slot w'. SlruSelectLRUPage ctl pageno w = Inr (slot, w') \<longrightarrow>
        ControlLock w' = Some LW_EXCLUSIVE)"
proof (induction w rule: SlruSelectLRUPage_induct [where ctl = ctl and pageno = pageno])
  case (hit w slotno)
  show ?case by simp
next
  case (empty w slotno best sh')
  show ?case by simp
next
  case (oob w b d p sh')
  show ?case by simp
next
  case (clean w b d p sh')
  show ?case by simp
next
  case (write_fail w b d p sh' err)
  show ?case by simp
next
  case (write_ok w b d p sh' fd w2)
  show ?case
  proof (intro impI)
    assume "ControlLock w = Some LW_EXCLUSIVE"
    then have "ControlLock (w\<lparr>shared := sh'\<rparr>) = Some LW_EXCLUSIVE" by simp
    from WritePage_lock(1) [OF this write_ok(6)] write_ok(7)
    show "\<forall>slot w'. SlruSelectLRUPage ctl pageno w2 = Inr (slot, w') \<longrightarrow>
        ControlLock w' = Some LW_EXCLUSIVE" by simp
  qed
next
  case (busy w b d p sh')
  from busy(5) show ?case by (simp add: WaitIO_other)
qed

text \<open>
  \<open>SimpleLruReadPage_Internal\<close>, entered with the control lock held exclusively: a return
  of a slot number holds the lock exclusively; the return of -1 has released it.
\<close>

lemma ReadPage_Internal_lock:
  assumes "ControlLock w = Some LW_EXCLUSIVE"
    and "SimpleLruReadPage_Internal ctl pageno write_ok xid valid w = Inr ((r, v), w')"
  shows "if r = - 1 then valid \<and> v = Some False \<and> ControlLock w' = None
         else 0 \<le> r \<and> r < int (num_slots (shared w)) \<and>
              v = (if valid then Some True else None) \<and> ControlLock w' = Some LW_EXCLUSIVE"
  using assms
proof (induction "io_weight (shared w)" arbitrary: w rule: less_induct)
  case less
  from less.prems(2) obtain slotno w1 where
    s: "SlruSelectLRUPage ctl pageno w = Inr (slotno, w1)"
    by (cases "SlruSelectLRUPage ctl pageno w")
       (auto simp: SimpleLruReadPage_Internal.simps [of ctl pageno write_ok xid valid w])
  from select_lock [of w ctl pageno] less.prems(1) s
  have l1: "ControlLock w1 = Some LW_EXCLUSIVE" by simp
  from select_result [of ctl pageno w] s
  have b: "slotno < num_slots (shared w)" and n: "num_slots (shared w1) = num_slots (shared w)"
    by (auto simp: same_pages_def)
  let ?hit = "page_number (shared w1) slotno = pageno \<and>
              page_status (shared w1) slotno \<noteq> SLRU_PAGE_EMPTY"
  let ?busy = "page_status (shared w1) slotno = SLRU_PAGE_READ_IN_PROGRESS \<or>
               (page_status (shared w1) slotno = SLRU_PAGE_WRITE_IN_PROGRESS \<and> \<not> write_ok)"
  show ?case
  proof (cases ?hit)
    case False
    with less.prems(2) s
    have "SimpleLruReadPage_read ctl pageno slotno xid valid w1 = Inr ((r, v), w')"
      by (simp add: SimpleLruReadPage_Internal.simps [of ctl pageno write_ok xid valid w])
    from ReadPage_read_status(2) [OF this] b show ?thesis by (auto split: if_splits)
  next
    case True
    show ?thesis
    proof (cases ?busy)
      case False
      with True less.prems(2) s
      have "r = int slotno" "v = (if valid then Some True else None)"
        "w' = SlruRecentlyUsed slotno w1"
        by (auto simp: SimpleLruReadPage_Internal.simps [of ctl pageno write_ok xid valid w])
      with l1 b show ?thesis by (simp add: SlruRecentlyUsed_def Let_def)
    next
      case busy: True
      let ?w2 = "SimpleLruWaitIO slotno w1"
      from True busy less.prems(2) s
      have r: "SimpleLruReadPage_Internal ctl pageno write_ok xid valid ?w2 = Inr ((r, v), w')"
        by (simp add: SimpleLruReadPage_Internal.simps [of ctl pageno write_ok xid valid w])
      from busy have "page_status (shared w1) slotno = SLRU_PAGE_READ_IN_PROGRESS \<or>
             page_status (shared w1) slotno = SLRU_PAGE_WRITE_IN_PROGRESS" by blast
      from select_then_wait_decreases [OF s this]
      have d: "io_weight (shared ?w2) < io_weight (shared w)" .
      have n2: "num_slots (shared ?w2) = num_slots (shared w)"
        using n by (simp add: WaitIO_shared)
      from less.hyps [OF d WaitIO_other(4) r, unfolded n2] show ?thesis .
    qed
  qed
qed

text \<open>
  Claim C9. \<open>SimpleLruReadPage_ReadOnly\<close>, entered without the control lock, returns in
  one of three ways. On a buffer hit it returns the slot with the lock held in shared mode,
  and after a fall-through to \<open>SimpleLruReadPage_Internal\<close> that ends well it returns a
  slot with the lock held in exclusive mode: on these two paths the claim holds. After a
  failed read reported through \<open>valid\<close> the code returns -1 with \<open>*valid = false\<close> and
  the control lock released, where the header comments of both functions say that the lock
  will be held at exit.
\<close>

theorem SimpleLruReadPage_ReadOnly_control_lock:
  assumes "ControlLock w = None"
    and "SimpleLruReadPage_ReadOnly ctl pageno xid valid w = Inr ((r, v), w')"
  shows "if r = - 1 then valid \<and> v = Some False \<and> ControlLock w' = None
         else 0 \<le> r \<and> r < int (num_slots (shared w)) \<and>
              v = (if valid then Some True else None) \<and>
              ControlLock w' =
                (case ReadOnly_hit (shared w) pageno of
                   Some slotno \<Rightarrow> Some LW_SHARED | None \<Rightarrow> Some LW_EXCLUSIVE)"
proof (cases "ReadOnly_hit (shared w) pageno")
  case (Some slotno)
  then have "slotno < num_slots (shared w)"
    by (auto simp: ReadOnly_hit_def find_Some_iff)
  moreover from Some assms(2)
  have "r = int slotno" "v = (if valid then Some True else None)"
    "w' = SlruRecentlyUsed slotno (LWLockAcquire_ControlLock LW_SHARED w)"
    by (simp_all add: SimpleLruReadPage_ReadOnly_def ReadOnly_hit_def Let_def
        LWLockAcquire_ControlLock_def)
  ultimately show ?thesis
    using Some by (simp add: SlruRecentlyUsed_def Let_def LWLockAcquire_ControlLock_def)
next
  case None
  let ?w3 = "LWLockAcquire_ControlLock LW_EXCLUSIVE
               (LWLockRelease_ControlLock (LWLockAcquire_ControlLock LW_SHARED w))"
  from None assms(2)
  have r: "SimpleLruReadPage_Internal ctl pageno True xid valid ?w3 = Inr ((r, v), w')"
    by (simp add: SimpleLruReadPage_ReadOnly_def ReadOnly_hit_def Let_def
        LWLockAcquire_ControlLock_def)
  have l: "ControlLock ?w3 = Some LW_EXCLUSIVE" and s: "shared ?w3 = shared w"
    by (simp_all add: LWLockAcquire_ControlLock_def LWLockRelease_ControlLock_def)
  from ReadPage_Internal_lock [OF l r, unfolded s] None show ?thesis by simp
qed


lemmas read_run_defs =
  SimpleLruReadPage_ReadOnly_def ReadOnly_hit_def SimpleLruReadPage_Internal.simps
  SlruSelectLRUPage.simps SlruFindPage_def SlruSelectLRUPage_pass_def SlruSelectLRUPage_step_def
  SimpleLruReadPage_read_def SimpleLruReadPage_begin_def SlruPhysicalReadPage_def
  BasicOpenFile_def take_fault_def save_error_def SlruReportIOError_def ENOENT_def
  set_page_status_def set_page_dirty_def set_page_number_def set_page_buffer_def
  SimpleLruZeroLSNs_def SlruRecentlyUsed_def LWLockAcquire_ControlLock_def
  LWLockRelease_ControlLock_def LWLockAcquire_buffer_def LWLockRelease_buffer_def
  backend_start_def loaded_pool_def SimpleLruInit_def clog_ctl_def c_div_def c_mod_def
  SLRU_PAGES_PER_SEGMENT_def signed_divide_int_def signed_modulo_int_def word_sless_alt
  SlruSimpleFileName_def hex_char_def Let_def upt_rec

theorem SimpleLruReadPage_ReadOnly_control_lock_witness:
  "ControlLock (backend_start (loaded_pool [5, 9] [0, 1] 1 9)) = None \<and>
   (case SimpleLruReadPage_ReadOnly clog_ctl 5 0 True (backend_start (loaded_pool [5, 9] [0, 1] 1 9)) of
      Inl x \<Rightarrow> False
    | Inr ((r, v), w') \<Rightarrow> r = 0 \<and> v = Some True \<and> ControlLock w' = Some LW_SHARED) \<and>
   ControlLock recovering = None \<and>
   (case SimpleLruReadPage_ReadOnly clog_ctl 5 0 True recovering of
      Inl x \<Rightarrow> False
    | Inr ((r, v), w') \<Rightarrow> r = 0 \<and> v = Some True \<and> ControlLock w' = Some LW_EXCLUSIVE) \<and>
   ControlLock (backend_start (loaded_pool [5, 9] [0, 1] 1 9)) = None \<and>
   (case SimpleLruReadPage_ReadOnly clog_ctl 40 0 True (backend_start (loaded_pool [5, 9] [0, 1] 1 9)) of
      Inl x \<Rightarrow> False
    | Inr ((r, v), w') \<Rightarrow> r = - 1 \<and> v = Some False \<and> ControlLock w' = None)"
proof -
  let ?wa = "backend_start (loaded_pool [5, 9] [0, 1] 1 9)"
  have la: "ControlLock ?wa = None" by (simp add: backend_start_def)
  have lb: "ControlLock recovering = None" by (simp add: recovering_def backend_start_def)
  have ha: "ReadOnly_hit (shared ?wa) 5 = Some 0"
    by (simp add: ReadOnly_hit_def backend_start_def loaded_pool_def SimpleLruInit_def upt_rec)
  have hb: "ReadOnly_hit (shared recovering) 5 = None"
    by (simp add: ReadOnly_hit_def recovering_def backend_start_def SimpleLruInit_def upt_rec)
  have "\<exists>w'. SimpleLruReadPage_ReadOnly clog_ctl 5 0 True ?wa = Inr ((0, Some True), w')"
    by (simp add: read_run_defs)
  then obtain wa' where a: "SimpleLruReadPage_ReadOnly clog_ctl 5 0 True ?wa = Inr ((0, Some True), wa')"
    by blast
  have "\<exists>w'. SimpleLruReadPage_ReadOnly clog_ctl 5 0 True recovering = Inr ((0, Some True), w')"
    by (simp add: read_run_defs recovering_def)
  then obtain wb' where b: "SimpleLruReadPage_ReadOnly clog_ctl 5 0 True recovering = Inr ((0, Some True), wb')"
    by blast
  have "\<exists>w'. SimpleLruReadPage_ReadOnly clog_ctl 40 0 True ?wa = Inr ((- 1, Some False), w')"
    by (simp add: read_run_defs)
  then obtain wc' where c: "SimpleLruReadPage_ReadOnly clog_ctl 40 0 True ?wa = Inr ((- 1, Some False), wc')"
    by blast
  from SimpleLruReadPage_ReadOnly_control_lock [OF la a]
    SimpleLruReadPage_ReadOnly_control_lock [OF lb b]
    SimpleLruReadPage_ReadOnly_control_lock [OF la c] ha hb
  have "ControlLock wa' = Some LW_SHARED" "ControlLock wb' = Some LW_EXCLUSIVE"
    "ControlLock wc' = None"
    by simp_all
  with la lb a b c show ?thesis by simp
qed

text \<open>
  The failing input. Over an empty directory, a read-only request with a \<open>valid\<close>
  pointer for page 5, which is in no buffer, fails to open segment 0000 and returns -1 with
  \<open>*valid = false\<close>; the control lock is free then, unlike on the other return paths.
\<close>

theorem SimpleLruReadPage_ReadOnly_failed_read_counterexample:
  "ControlLock (backend_start (SimpleLruInit 2 0)) = None \<and>
   (case SimpleLruReadPage_ReadOnly clog_ctl 5 0 True (backend_start (SimpleLruInit 2 0)) of
      Inl x \<Rightarrow> False
    | Inr ((r, v), w') \<Rightarrow> r = - 1 \<and> v = Some False \<and> ControlLock w' = None \<and>
        slru_errcause w' = SLRU_OPEN_FAILED \<and> slru_errno w' = ENOENT)"
  by (simp add: read_run_defs)

subsection \<open>What SimpleLruPageExists returns and raises\<close>

lemma ReadPage_begin_shared:
  "page_number (shared (SimpleLruReadPage_begin pageno slotno w)) = (page_number (shared w))(slotno := pageno)"
  "page_status (shared (SimpleLruReadPage_begin pageno slotno w)) =
     (page_status (shared w))(slotno := SLRU_PAGE_READ_IN_PROGRESS)"
  "num_slots (shared (SimpleLruReadPage_begin pageno slotno w)) = num_slots (shared w)"
  "InRecovery (SimpleLruReadPage_begin pageno slotno w) = InRecovery w"
  by (simp_all add: SimpleLruReadPage_begin_def Let_def set_page_number_def set_page_status_def
      set_page_dirty_def LWLockAcquire_buffer_def SlruRecentlyUsed_def LWLockRelease_ControlLock_def)

lemma PageExists_read_status:
  assumes "SlruPhysicalReadPage ctl pageno slotno (SimpleLruReadPage_begin pageno slotno w) = (ok, w7)"
  shows "fst (SimpleLruPageExists_read ctl pageno slotno w) = ok"
    and "page_number (shared (snd (SimpleLruPageExists_read ctl pageno slotno w))) slotno = pageno"
    and "page_status (shared (snd (SimpleLruPageExists_read ctl pageno slotno w))) slotno =
           (if ok then SLRU_PAGE_VALID else SLRU_PAGE_EMPTY)"
    and "num_slots (shared (snd (SimpleLruPageExists_read ctl pageno slotno w))) = num_slots (shared w)"
proof -
  from PhysicalRead_frame [OF assms] obtain buf where
    "shared w7 = (shared (SimpleLruReadPage_begin pageno slotno w))
       \<lparr>page_buffer := (page_buffer (shared (SimpleLruReadPage_begin pageno slotno w)))(slotno := buf)\<rparr>"
    by (auto simp: read_frame_def)
  then have s: "page_number (shared w7) slotno = pageno" "num_slots (shared w7) = num_slots (shared w)"
    by (simp_all add: ReadPage_begin_shared)
  show "fst (SimpleLruPageExists_read ctl pageno slotno w) = ok"
    by (simp add: SimpleLruPageExists_read_def assms Let_def)
  show "page_number (shared (snd (SimpleLruPageExists_read ctl pageno slotno w))) slotno = pageno"
    using s by (simp add: SimpleLruPageExists_read_def assms Let_def set_page_status_def
        LWLockRelease_buffer_def LWLockAcquire_ControlLock_def)
  show "page_status (shared (snd (SimpleLruPageExists_read ctl pageno slotno w))) slotno =
           (if ok then SLRU_PAGE_VALID else SLRU_PAGE_EMPTY)"
    by (simp add: SimpleLruPageExists_read_def assms Let_def set_page_status_def
        LWLockRelease_buffer_def LWLockAcquire_ControlLock_def)
  show "num_slots (shared (snd (SimpleLruPageExists_read ctl pageno slotno w))) = num_slots (shared w)"
    using s by (simp add: SimpleLruPageExists_read_def assms Let_def set_page_status_def
        LWLockRelease_buffer_def LWLockAcquire_ControlLock_def)
qed

text \<open>
  The error of a failed write of a dirty victim: an I/O error that names the page of a slot
  which is VALID and dirty when the error is raised, a page other than the requested one.
\<close>

definition victim_write_failed :: "int32 \<Rightarrow> SlruSharedData \<Rightarrow> slru_error \<Rightarrow> bool" where
  "victim_write_failed pageno sh err \<longleftrightarrow>
     (\<exists>b \<in> set [0..<num_slots sh].
        page_status sh b = SLRU_PAGE_VALID \<and> page_dirty sh b \<and> page_number sh b \<noteq> pageno \<and>
        (case err of SlruIOError cause en p xid \<Rightarrow> p = page_number sh b \<and> xid = 0
                   | SlruOutOfBounds \<Rightarrow> False))"

lemma select_error:
  "\<forall>err w'. SlruSelectLRUPage ctl pageno w = Inl (err, w') \<longrightarrow>
     num_slots (shared w') = num_slots (shared w) \<and>
     (if num_slots (shared w) = 0 then err = SlruOutOfBounds
      else victim_write_failed pageno (shared w') err)"
proof (induction w rule: SlruSelectLRUPage_induct [where ctl = ctl and pageno = pageno])
  case (hit w slotno)
  show ?case by simp
next
  case (empty w slotno best sh')
  show ?case by simp
next
  case (oob w b d p sh')
  from pass_frame [OF oob(2)] oob(3) show ?case by simp
next
  case (clean w b d p sh')
  show ?case by simp
next
  case (write_fail w b d p sh' err)
  note fr = pass_frame [OF write_fail(2)]
  from pass_none [OF write_fail(2,3)] have b: "b < num_slots (shared w)" by simp
  obtain e w' where err: "err = (e, w')" by (cases err)
  have wt: "SimpleLruWritePage_wait (page_number sh' b) b (w\<lparr>shared := sh'\<rparr>) = w\<lparr>shared := sh'\<rparr>"
    by (simp add: WritePage_wait_eq write_fail(4))
  from write_fail(6) err
  have "SimpleLruWritePage_write ctl (page_number sh' b) b None (w\<lparr>shared := sh'\<rparr>) = Inl (e, w')"
    by (simp add: SimpleLruWritePage_def wt)
  from write_Inl [OF this] obtain cause en where
    sh: "shared w' = sh'" and e: "e = SlruIOError cause en (page_number sh' b) 0"
    by auto
  from write_fail(1) b fr write_fail(4) have ne: "page_number sh' b \<noteq> pageno"
    by (auto simp: FindPage_None)
  have "victim_write_failed pageno (shared w') e"
    unfolding victim_write_failed_def
    by (rule bexI [of _ b]) (use b fr sh e ne write_fail(4,5) in simp_all)
  with write_fail(3) err sh fr show ?case by simp
next
  case (write_ok w b d p sh' fd w2)
  from select_write_shared [OF write_ok(4,5,6)] pass_frame [OF write_ok(2)]
  have n: "num_slots (shared w2) = num_slots (shared w)" by simp
  from write_ok(7) [unfolded n] show ?case .
next
  case (busy w b d p sh')
  from pass_frame [OF busy(2)]
  have n: "num_slots (shared (SimpleLruWaitIO b (w\<lparr>shared := sh'\<rparr>))) = num_slots (shared w)"
    by (simp add: WaitIO_shared)
  from busy(5) [unfolded n] show ?case .
qed

text \<open>Whether some slot holds the page with one of the given states.\<close>

definition page_in_state :: "SlruSharedData \<Rightarrow> int32 \<Rightarrow> SlruPageStatus list \<Rightarrow> bool" where
  "page_in_state sh pageno sts \<longleftrightarrow>
     (\<exists>slot \<in> set [0..<num_slots sh]. page_number sh slot = pageno \<and> page_status sh slot \<in> set sts)"

lemma PageExists_result:
  "case SimpleLruPageExists ctl pageno w of
     Inl (err, w') \<Rightarrow>
       num_slots (shared w') = num_slots (shared w) \<and>
       (if num_slots (shared w) = 0 then err = SlruOutOfBounds
        else victim_write_failed pageno (shared w') err)
   | Inr (found, w') \<Rightarrow>
       num_slots (shared w') = num_slots (shared w) \<and>
       (if found then page_in_state (shared w') pageno [SLRU_PAGE_VALID, SLRU_PAGE_WRITE_IN_PROGRESS]
        else page_in_state (shared w') pageno [SLRU_PAGE_EMPTY])"
proof (induction "io_weight (shared w)" arbitrary: w rule: less_induct)
  case less
  show ?case
  proof (cases "SlruSelectLRUPage ctl pageno w")
    case (Inl x)
    obtain err w' where x: "x = (err, w')" by (cases x)
    from select_error [of ctl pageno w] Inl x show ?thesis
      by (simp add: SimpleLruPageExists.simps [of ctl pageno w])
  next
    case (Inr x)
    obtain slotno w1 where x: "x = (slotno, w1)" by (cases x)
    with Inr have s: "SlruSelectLRUPage ctl pageno w = Inr (slotno, w1)" by simp
    from select_result [of ctl pageno w] s
    have b: "slotno < num_slots (shared w)" and n: "num_slots (shared w1) = num_slots (shared w)"
      by (auto simp: same_pages_def)
    show ?thesis
    proof (cases "page_number (shared w1) slotno = pageno \<and>
                  page_status (shared w1) slotno \<noteq> SLRU_PAGE_EMPTY")
      case False
      obtain ok w7 where rd:
        "SlruPhysicalReadPage ctl pageno slotno (SimpleLruReadPage_begin pageno slotno w1) = (ok, w7)"
        by (cases "SlruPhysicalReadPage ctl pageno slotno (SimpleLruReadPage_begin pageno slotno w1)")
      obtain found w' where r: "SimpleLruPageExists_read ctl pageno slotno w1 = (found, w')"
        by (cases "SimpleLruPageExists_read ctl pageno slotno w1")
      from PageExists_read_status [OF rd] r
      have "found = ok" "page_number (shared w') slotno = pageno"
        "page_status (shared w') slotno = (if ok then SLRU_PAGE_VALID else SLRU_PAGE_EMPTY)"
        "num_slots (shared w') = num_slots (shared w1)"
        by simp_all
      with b n have "num_slots (shared w') = num_slots (shared w) \<and>
         (if found then page_in_state (shared w') pageno [SLRU_PAGE_VALID, SLRU_PAGE_WRITE_IN_PROGRESS]
          else page_in_state (shared w') pageno [SLRU_PAGE_EMPTY])"
        unfolding page_in_state_def by (auto intro!: bexI [of _ slotno])
      with False s r show ?thesis
        by (auto simp: SimpleLruPageExists.simps [of ctl pageno w])
    next
      case True
      show ?thesis
      proof (cases "page_status (shared w1) slotno = SLRU_PAGE_READ_IN_PROGRESS")
        case False
        with True have "page_status (shared w1) slotno = SLRU_PAGE_VALID \<or>
            page_status (shared w1) slotno = SLRU_PAGE_WRITE_IN_PROGRESS"
          by (cases "page_status (shared w1) slotno") simp_all
        with True b n
        have "page_in_state (shared w1) pageno [SLRU_PAGE_VALID, SLRU_PAGE_WRITE_IN_PROGRESS]"
          unfolding page_in_state_def by (auto intro!: bexI [of _ slotno])
        with True False s n show ?thesis
          by (simp add: SimpleLruPageExists.simps [of ctl pageno w])
      next
        case busy: True
        let ?w2 = "SimpleLruWaitIO slotno w1"
        from True busy s
        have r: "SimpleLruPageExists ctl pageno w = SimpleLruPageExists ctl pageno ?w2"
          by (simp add: SimpleLruPageExists.simps [of ctl pageno w])
        from busy select_then_wait_decreases [OF s]
        have d: "io_weight (shared ?w2) < io_weight (shared w)" by blast
        have n2: "num_slots (shared ?w2) = num_slots (shared w)"
          using n by (simp add: WaitIO_shared)
        from less.hyps [OF d, unfolded n2] r show ?thesis by simp
      qed
    qed
  qed
qed


lemma PhysicalRead_recovery:
  assumes "BasicOpenFile (SlruSimpleFileName (c_div pageno SLRU_PAGES_PER_SEGMENT)) w = (False, w2)"
    and "errno w2 = ENOENT" and "InRecovery w"
  shows "fst (SlruPhysicalReadPage ctl pageno slotno w)"
proof -
  from BasicOpenFile_frame [OF assms(1), of slotno] assms(3) have "InRecovery w2"
    by (simp add: read_frame_def)
  with assms(1,2) show ?thesis by (simp add: SlruPhysicalReadPage_def Let_def)
qed

text \<open>
  Claim C10, as amended. \<open>SimpleLruPageExists\<close> does not report a failure of its own
  physical read, but it can raise the I/O error of \<open>SlruSelectLRUPage\<close> writing out a
  dirty victim. First, every outcome: an error is that of a failed write of a VALID dirty
  slot holding another page (in a pool with no slot at all, the out-of-bounds stop of the model);
  a return of true leaves the page in a VALID or write-busy slot, a return of false leaves
  its slot EMPTY. Second, a page buffered in a slot that is not read-busy gives true with
  nothing changed. Third, when the page is not buffered and the selected slot is
  \<open>slotno\<close>, the call returns what its physical read returns, with the slot VALID after a
  success and EMPTY after a failure; and in recovery, when opening the segment fails with
  ENOENT, the read succeeds and the page is reported as existing.
\<close>

theorem SimpleLruPageExists_outcome:
  "(case SimpleLruPageExists ctl pageno w of
      Inl (err, w') \<Rightarrow>
        if num_slots (shared w) = 0 then err = SlruOutOfBounds
        else victim_write_failed pageno (shared w') err
    | Inr (found, w') \<Rightarrow>
        if found then page_in_state (shared w') pageno [SLRU_PAGE_VALID, SLRU_PAGE_WRITE_IN_PROGRESS]
        else page_in_state (shared w') pageno [SLRU_PAGE_EMPTY]) \<and>
   (SlruFindPage (shared w) pageno = Some slotno \<and>
    page_status (shared w) slotno \<noteq> SLRU_PAGE_READ_IN_PROGRESS \<longrightarrow>
      SimpleLruPageExists ctl pageno w = Inr (True, w)) \<and>
   (SlruSelectLRUPage ctl pageno w = Inr (slotno, w1) \<and>
    \<not> (page_number (shared w1) slotno = pageno \<and> page_status (shared w1) slotno \<noteq> SLRU_PAGE_EMPTY) \<and>
    SlruPhysicalReadPage ctl pageno slotno (SimpleLruReadPage_begin pageno slotno w1) = (ok, w7) \<longrightarrow>
      (case SimpleLruPageExists ctl pageno w of
         Inl x \<Rightarrow> False
       | Inr (found, w') \<Rightarrow>
           found = ok \<and> page_number (shared w') slotno = pageno \<and>
           page_status (shared w') slotno = (if ok then SLRU_PAGE_VALID else SLRU_PAGE_EMPTY)) \<and>
      (InRecovery w1 \<and>
       BasicOpenFile (SlruSimpleFileName (c_div pageno SLRU_PAGES_PER_SEGMENT))
         (SimpleLruReadPage_begin pageno slotno w1) = (False, w2) \<and> errno w2 = ENOENT \<longrightarrow> ok))"
proof (intro conjI impI)
  from PageExists_result [where ctl = ctl and pageno = pageno and w = w]
  show "case SimpleLruPageExists ctl pageno w of
      Inl (err, w') \<Rightarrow>
        if num_slots (shared w) = 0 then err = SlruOutOfBounds
        else victim_write_failed pageno (shared w') err
    | Inr (found, w') \<Rightarrow>
        if found then page_in_state (shared w') pageno [SLRU_PAGE_VALID, SLRU_PAGE_WRITE_IN_PROGRESS]
        else page_in_state (shared w') pageno [SLRU_PAGE_EMPTY]"
    by (auto split: sum.splits)
next
  assume a: "SlruFindPage (shared w) pageno = Some slotno \<and>
    page_status (shared w) slotno \<noteq> SLRU_PAGE_READ_IN_PROGRESS"
  then have s: "SlruSelectLRUPage ctl pageno w = Inr (slotno, w)"
    by (simp add: SlruSelectLRUPage.simps [of ctl pageno w])
  from a FindPage_Some [of "shared w" pageno slotno]
  have "page_number (shared w) slotno = pageno" "page_status (shared w) slotno \<noteq> SLRU_PAGE_EMPTY"
    by simp_all
  with a s show "SimpleLruPageExists ctl pageno w = Inr (True, w)"
    by (simp add: SimpleLruPageExists.simps [of ctl pageno w])
next
  assume a: "SlruSelectLRUPage ctl pageno w = Inr (slotno, w1) \<and>
    \<not> (page_number (shared w1) slotno = pageno \<and> page_status (shared w1) slotno \<noteq> SLRU_PAGE_EMPTY) \<and>
    SlruPhysicalReadPage ctl pageno slotno (SimpleLruReadPage_begin pageno slotno w1) = (ok, w7)"
  then have rd: "SlruPhysicalReadPage ctl pageno slotno (SimpleLruReadPage_begin pageno slotno w1) = (ok, w7)"
    by simp
  from a have "SimpleLruPageExists ctl pageno w = Inr (SimpleLruPageExists_read ctl pageno slotno w1)"
    by (auto simp: SimpleLruPageExists.simps [of ctl pageno w])
  with PageExists_read_status(1,2,3) [OF rd]
  show "case SimpleLruPageExists ctl pageno w of
         Inl x \<Rightarrow> False
       | Inr (found, w') \<Rightarrow>
           found = ok \<and> page_number (shared w') slotno = pageno \<and>
           page_status (shared w') slotno = (if ok then SLRU_PAGE_VALID else SLRU_PAGE_EMPTY)"
    by (simp add: case_prod_unfold)
next
  assume a: "SlruSelectLRUPage ctl pageno w = Inr (slotno, w1) \<and>
    \<not> (page_number (shared w1) slotno = pageno \<and> page_status (shared w1) slotno \<noteq> SLRU_PAGE_EMPTY) \<and>
    SlruPhysicalReadPage ctl pageno slotno (SimpleLruReadPage_begin pageno slotno w1) = (ok, w7)"
    and b: "InRecovery w1 \<and>
       BasicOpenFile (SlruSimpleFileName (c_div pageno SLRU_PAGES_PER_SEGMENT))
         (SimpleLruReadPage_begin pageno slotno w1) = (False, w2) \<and> errno w2 = ENOENT"
  from b have r: "InRecovery (SimpleLruReadPage_begin pageno slotno w1)"
    by (simp add: ReadPage_begin_shared)
  from b have o: "BasicOpenFile (SlruSimpleFileName (c_div pageno SLRU_PAGES_PER_SEGMENT))
         (SimpleLruReadPage_begin pageno slotno w1) = (False, w2)" and e: "errno w2 = ENOENT"
    by simp_all
  have "fst (SlruPhysicalReadPage ctl pageno slotno (SimpleLruReadPage_begin pageno slotno w1))"
    by (rule PhysicalRead_recovery [OF o e r])
  with a show ok by simp
qed

lemmas exists_run_defs = SimpleLruPageExists.simps SimpleLruPageExists_read_def

theorem SimpleLruPageExists_outcome_witness:
  "SimpleLruPageExists clog_ctl 5 (backend_start (loaded_pool [5, 9] [0, 1] 1 9)) =
     Inr (True, backend_start (loaded_pool [5, 9] [0, 1] 1 9)) \<and>
   (\<exists>w1. SlruSelectLRUPage clog_ctl 5 (backend_start (SimpleLruInit 2 0)) = Inr (0, w1) \<and>
      \<not> fst (SlruPhysicalReadPage clog_ctl 5 0 (SimpleLruReadPage_begin 5 0 w1))) \<and>
   (case SimpleLruPageExists clog_ctl 5 (backend_start (SimpleLruInit 2 0)) of
      Inl x \<Rightarrow> False
    | Inr (found, w') \<Rightarrow> \<not> found \<and> page_number (shared w') 0 = 5 \<and>
        page_status (shared w') 0 = SLRU_PAGE_EMPTY \<and>
        page_in_state (shared w') 5 [SLRU_PAGE_EMPTY]) \<and>
   InRecovery recovering \<and> map_of (directory recovering) ''0000'' = None \<and>
   (case SimpleLruPageExists clog_ctl 5 recovering of
      Inl x \<Rightarrow> False
    | Inr (found, w') \<Rightarrow> found \<and> page_number (shared w') 0 = 5 \<and>
        page_status (shared w') 0 = SLRU_PAGE_VALID)"
proof -
  let ?wa = "backend_start (loaded_pool [5, 9] [0, 1] 1 9)"
  let ?wb = "backend_start (SimpleLruInit 2 0)"
  have fa: "SlruFindPage (shared ?wa) 5 = Some 0 \<and>
      page_status (shared ?wa) 0 \<noteq> SLRU_PAGE_READ_IN_PROGRESS"
    by (simp add: SlruFindPage_def backend_start_def loaded_pool_def SimpleLruInit_def upt_rec)
  have "\<exists>w1. SlruSelectLRUPage clog_ctl 5 ?wb = Inr (0, w1) \<and>
      \<not> (page_number (shared w1) 0 = 5 \<and> page_status (shared w1) 0 \<noteq> SLRU_PAGE_EMPTY) \<and>
      \<not> fst (SlruPhysicalReadPage clog_ctl 5 0 (SimpleLruReadPage_begin 5 0 w1))"
    by (simp add: read_run_defs)
  then obtain w1 where sb: "SlruSelectLRUPage clog_ctl 5 ?wb = Inr (0, w1)"
    and nb: "\<not> (page_number (shared w1) 0 = 5 \<and> page_status (shared w1) 0 \<noteq> SLRU_PAGE_EMPTY)"
    and rb: "\<not> fst (SlruPhysicalReadPage clog_ctl 5 0 (SimpleLruReadPage_begin 5 0 w1))"
    by blast
  obtain w7 where rb': "SlruPhysicalReadPage clog_ctl 5 0 (SimpleLruReadPage_begin 5 0 w1) = (False, w7)"
    using rb by (cases "SlruPhysicalReadPage clog_ctl 5 0 (SimpleLruReadPage_begin 5 0 w1)") auto
  have "\<exists>w1 w2. SlruSelectLRUPage clog_ctl 5 recovering = Inr (0, w1) \<and>
      \<not> (page_number (shared w1) 0 = 5 \<and> page_status (shared w1) 0 \<noteq> SLRU_PAGE_EMPTY) \<and>
      InRecovery w1 \<and>
      BasicOpenFile (SlruSimpleFileName (c_div 5 SLRU_PAGES_PER_SEGMENT))
        (SimpleLruReadPage_begin 5 0 w1) = (False, w2) \<and> errno w2 = ENOENT"
    by (simp add: read_run_defs recovering_def)
  then obtain v1 v2 where sc: "SlruSelectLRUPage clog_ctl 5 recovering = Inr (0, v1)"
    and nc: "\<not> (page_number (shared v1) 0 = 5 \<and> page_status (shared v1) 0 \<noteq> SLRU_PAGE_EMPTY)"
    and rc: "InRecovery v1"
    and oc: "BasicOpenFile (SlruSimpleFileName (c_div 5 SLRU_PAGES_PER_SEGMENT))
        (SimpleLruReadPage_begin 5 0 v1) = (False, v2)" "errno v2 = ENOENT"
    by blast
  obtain okc v7 where rc': "SlruPhysicalReadPage clog_ctl 5 0 (SimpleLruReadPage_begin 5 0 v1) = (okc, v7)"
    by (cases "SlruPhysicalReadPage clog_ctl 5 0 (SimpleLruReadPage_begin 5 0 v1)")
  have m: "InRecovery recovering" "map_of (directory recovering) ''0000'' = None"
    by (simp_all add: recovering_def backend_start_def)
  from SimpleLruPageExists_outcome [where ctl = clog_ctl and pageno = 5 and w = ?wa and slotno = 0] fa
  have a: "SimpleLruPageExists clog_ctl 5 ?wa = Inr (True, ?wa)" by blast
  from SimpleLruPageExists_outcome [where ctl = clog_ctl and pageno = 5 and w = ?wb and slotno = 0
      and ?w1.0 = w1 and ok = False and ?w7.0 = w7] sb nb rb'
  have b: "case SimpleLruPageExists clog_ctl 5 ?wb of
      Inl x \<Rightarrow> False
    | Inr (found, w') \<Rightarrow> found = False \<and> page_number (shared w') 0 = 5 \<and>
        page_status (shared w') 0 = (if False then SLRU_PAGE_VALID else SLRU_PAGE_EMPTY)"
    and b2: "case SimpleLruPageExists clog_ctl 5 ?wb of
      Inl (err, w') \<Rightarrow>
        if num_slots (shared ?wb) = 0 then err = SlruOutOfBounds
        else victim_write_failed 5 (shared w') err
    | Inr (found, w') \<Rightarrow>
        if found then page_in_state (shared w') 5 [SLRU_PAGE_VALID, SLRU_PAGE_WRITE_IN_PROGRESS]
        else page_in_state (shared w') 5 [SLRU_PAGE_EMPTY]"
    by blast+
  from SimpleLruPageExists_outcome [where ctl = clog_ctl and pageno = 5 and w = recovering
      and slotno = 0 and ?w1.0 = v1 and ok = okc and ?w7.0 = v7 and ?w2.0 = v2] sc nc rc oc rc'
  have c: "case SimpleLruPageExists clog_ctl 5 recovering of
      Inl x \<Rightarrow> False
    | Inr (found, w') \<Rightarrow> found = okc \<and> page_number (shared w') 0 = 5 \<and>
        page_status (shared w') 0 = (if okc then SLRU_PAGE_VALID else SLRU_PAGE_EMPTY)"
    and okc by blast+
  from sb rb have "\<exists>w1. SlruSelectLRUPage clog_ctl 5 ?wb = Inr (0, w1) \<and>
      \<not> fst (SlruPhysicalReadPage clog_ctl 5 0 (SimpleLruReadPage_begin 5 0 w1))" by blast
  with a b b2 c \<open>okc\<close> m show ?thesis
    by (auto split: sum.splits)
qed

text \<open>
  The claim as stated has no I/O error raised. With the dirty page 5 as the victim for a
  request of page 9, and the open of its segment failing, the test for page 9 raises the
  error of writing page 5.
\<close>

theorem SimpleLruPageExists_raises_counterexample:
  "(case SimpleLruPageExists clog_ctl 9 dirty_page_io_error of
      Inl (err, w') \<Rightarrow> err = SlruIOError SLRU_OPEN_FAILED 5 5 0 \<and>
        page_status (shared w') 0 = SLRU_PAGE_VALID \<and> page_dirty (shared w') 0 \<and>
        page_number (shared w') 0 = 5
    | Inr x \<Rightarrow> False)"
  by (simp add: exists_run_defs read_run_defs run_defs dirty_page_io_error_def)

subsection \<open>Pages on disk\<close>

text \<open>The file and the byte offset of a page, and the bytes a read of the page finds there.\<close>

definition page_file :: "int32 \<Rightarrow> string" where
  "page_file pageno = SlruSimpleFileName (c_div pageno SLRU_PAGES_PER_SEGMENT)"

definition page_offset :: "int32 \<Rightarrow> int32" where
  "page_offset pageno = c_mod pageno SLRU_PAGES_PER_SEGMENT * word_of_nat BLCKSZ"

definition file_content :: "(string \<times> byte list) list \<Rightarrow> string \<Rightarrow> byte list" where
  "file_content dir name = (case map_of dir name of None \<Rightarrow> [] | Some content \<Rightarrow> content)"

definition page_on_disk :: "(string \<times> byte list) list \<Rightarrow> int32 \<Rightarrow> byte list" where
  "page_on_disk dir pageno =
     take BLCKSZ (drop (unat (page_offset pageno)) (file_content dir (page_file pageno)))"

lemma page_split:
  "p = c_div p SLRU_PAGES_PER_SEGMENT * SLRU_PAGES_PER_SEGMENT + c_mod p SLRU_PAGES_PER_SEGMENT"
proof -
  have "sint p = sint p sdiv 32 * 32 + sint p smod 32"
    using sdiv_mult_smod_eq [of "sint p" 32] by simp
  then have "(word_of_int (sint p) :: int32) = word_of_int (sint p sdiv 32 * 32 + sint p smod 32)"
    by simp
  then show ?thesis
    by (simp add: c_div_def c_mod_def SLRU_PAGES_PER_SEGMENT_def)
qed

lemma page_split_eq:
  assumes "c_div p SLRU_PAGES_PER_SEGMENT = c_div q SLRU_PAGES_PER_SEGMENT"
    and "c_mod p SLRU_PAGES_PER_SEGMENT = c_mod q SLRU_PAGES_PER_SEGMENT"
  shows "p = q"
  using page_split [of p] page_split [of q] assms by simp

lemma page_offset_sint: "sint (page_offset p) = sint p smod 32 * 8192"
proof -
  let ?r = "sint p smod 32"
  have rg: "- 32 < ?r" "?r < 32"
    using smod_int_range [of 32 "sint p"] by simp_all
  have o: "page_offset p = word_of_int (?r * 8192)"
    by (simp add: page_offset_def c_mod_def SLRU_PAGES_PER_SEGMENT_def BLCKSZ_def)
  have lo: "- (2 ^ 31) \<le> ?r * 8192" and hi: "?r * 8192 < 2 ^ 31" using rg by simp_all
  have "sint (word_of_int (?r * 8192) :: int32) = signed_take_bit 31 (?r * 8192)"
    by (simp only: sint_sbintrunc') simp
  also have "\<dots> = ?r * 8192" by (rule signed_take_bit_int_eq_self [OF lo hi])
  finally show ?thesis by (simp add: o)
qed

lemma page_offset_not_minus1: "page_offset p \<noteq> - 1"
proof
  assume "page_offset p = - 1"
  then have "sint (page_offset p) = - 1" by simp
  then have "sint p smod 32 * 8192 = - 1" by (simp only: page_offset_sint)
  then have "(sint p smod 32 * 8192) mod 8192 = (- 1) mod 8192" by simp
  then show False by simp
qed

lemma page_offset_nat:
  assumes "\<not> page_offset p <s 0"
  shows "\<exists>k<32. unat (page_offset p) = k * BLCKSZ \<and> c_mod p SLRU_PAGES_PER_SEGMENT = word_of_nat k"
proof -
  let ?r = "sint p smod 32"
  have rg: "- 32 < ?r" "?r < 32"
    using smod_int_range [of 32 "sint p"] by simp_all
  have o: "page_offset p = word_of_int (?r * 8192)"
    by (simp add: page_offset_def c_mod_def SLRU_PAGES_PER_SEGMENT_def BLCKSZ_def)
  from assms have r0: "0 \<le> ?r" by (simp add: word_sless_alt page_offset_sint)
  have "uint (word_of_int (?r * 8192) :: int32) = (?r * 8192) mod 2 ^ 32"
    by (simp only: uint_word_of_int) simp
  also have "\<dots> = ?r * 8192" using r0 rg by simp
  finally have "uint (page_offset p) = ?r * 8192" by (simp only: o)
  then have "unat (page_offset p) = nat ?r * 8192"
    using r0 by (simp add: unat_eq_nat_uint nat_mult_distrib)
  moreover have "c_mod p SLRU_PAGES_PER_SEGMENT = word_of_nat (nat ?r)"
    using r0 by (simp add: c_mod_def SLRU_PAGES_PER_SEGMENT_def)
  moreover have "nat ?r < 32" using rg r0 by simp
  ultimately show ?thesis by (auto simp: BLCKSZ_def)
qed

lemma page_offset_apart:
  assumes "\<not> page_offset p <s 0" and "\<not> page_offset q <s 0"
    and "c_mod p SLRU_PAGES_PER_SEGMENT \<noteq> c_mod q SLRU_PAGES_PER_SEGMENT"
  shows "unat (page_offset p) + BLCKSZ \<le> unat (page_offset q) \<or>
         unat (page_offset q) + BLCKSZ \<le> unat (page_offset p)"
proof -
  from page_offset_nat [OF assms(1)] obtain k where
    k: "unat (page_offset p) = k * BLCKSZ" "c_mod p SLRU_PAGES_PER_SEGMENT = word_of_nat k" by blast
  from page_offset_nat [OF assms(2)] obtain j where
    j: "unat (page_offset q) = j * BLCKSZ" "c_mod q SLRU_PAGES_PER_SEGMENT = word_of_nat j" by blast
  from k j assms(3) have "k \<noteq> j" by auto
  then have "Suc k \<le> j \<or> Suc j \<le> k" by arith
  then have "Suc k * BLCKSZ \<le> j * BLCKSZ \<or> Suc j * BLCKSZ \<le> k * BLCKSZ"
    using mult_le_mono1 by blast
  with k j show ?thesis by (simp add: add.commute)
qed

subsection \<open>File names\<close>

lemma hex_char_inj:
  assumes "a < 16" and "b < 16" and "hex_char a = hex_char b"
  shows "a = b"
proof -
  have "distinct ''0123456789ABCDEF''" by simp
  from nth_eq_iff_index_eq [OF this, of a b] assms show ?thesis
    by (simp add: hex_char_def)
qed

lemma digits_mod:
  fixes a b :: nat
  assumes "\<forall>k<m. a div 16 ^ k mod 16 = b div 16 ^ k mod 16"
  shows "a mod 16 ^ m = b mod 16 ^ m"
  using assms
proof (induction m)
  case 0
  show ?case by simp
next
  case (Suc m)
  then have ih: "a mod 16 ^ m = b mod 16 ^ m" and d: "a div 16 ^ m mod 16 = b div 16 ^ m mod 16"
    by simp_all
  have "\<And>x :: nat. x mod 16 ^ Suc m = 16 ^ m * (x div 16 ^ m mod 16) + x mod 16 ^ m"
    unfolding power_Suc2 by (rule mod_mult2_eq)
  with ih d show ?case by simp
qed

definition hex_digits :: "int32 \<Rightarrow> string" where
  "hex_digits seg = map (\<lambda>k. hex_char (unat seg div 16 ^ k mod 16)) (rev [0..<8])"

lemma hex_digits_inj:
  assumes "hex_digits a = hex_digits b"
  shows "a = b"
proof -
  from assms have "map (\<lambda>k. hex_char (unat a div 16 ^ k mod 16)) [0..<8] =
      map (\<lambda>k. hex_char (unat b div 16 ^ k mod 16)) [0..<8]"
    unfolding hex_digits_def rev_map [symmetric] by (simp only: rev_is_rev_conv)
  then have "\<forall>k<8. hex_char (unat a div 16 ^ k mod 16) = hex_char (unat b div 16 ^ k mod 16)"
    by (simp only: map_eq_conv set_upt) simp
  then have "\<forall>k<8. unat a div 16 ^ k mod 16 = unat b div 16 ^ k mod 16"
    by (auto intro!: hex_char_inj)
  from digits_mod [OF this] have "unat a mod 2 ^ 32 = unat b mod 2 ^ 32" by simp
  moreover have "unat a < 2 ^ 32" "unat b < 2 ^ 32"
    using unsigned_less [of a] unsigned_less [of b] by simp_all
  ultimately have "unat a = unat b" by simp
  then show ?thesis by (rule word_unat_eq_iff [THEN iffD2])
qed

lemma SlruSimpleFileName_inj:
  assumes "SlruSimpleFileName a = SlruSimpleFileName b"
  shows "a = b"
proof -
  let ?z = "\<lambda>c. c = CHR ''0''"
  let ?n = "\<lambda>seg. length (takeWhile ?z (take 4 (hex_digits seg)))"
  have nm: "SlruSimpleFileName seg = drop (?n seg) (hex_digits seg)" for seg
    by (simp add: SlruSimpleFileName_def hex_digits_def Let_def)
  have len: "length (hex_digits seg) = 8" for seg by (simp add: hex_digits_def)
  have n4: "?n seg \<le> 4" for seg
    using length_takeWhile_le [of ?z "take 4 (hex_digits seg)"] by (simp add: len)
  have pre: "take (?n seg) (hex_digits seg) = replicate (?n seg) CHR ''0''" for seg
  proof -
    have "takeWhile ?z (take 4 (hex_digits seg)) = take (?n seg) (take 4 (hex_digits seg))"
      by (rule takeWhile_eq_take)
    also have "\<dots> = take (?n seg) (hex_digits seg)" using n4 [of seg] by (simp add: min_def)
    finally have t: "take (?n seg) (hex_digits seg) = takeWhile ?z (take 4 (hex_digits seg))" by simp
    have "\<forall>c \<in> set (takeWhile ?z (take 4 (hex_digits seg))). c = CHR ''0''"
      by (auto dest: set_takeWhileD)
    then have "takeWhile ?z (take 4 (hex_digits seg)) = replicate (?n seg) CHR ''0''"
      by (simp add: replicate_length_same)
    with t show ?thesis by simp
  qed
  from assms have d: "drop (?n a) (hex_digits a) = drop (?n b) (hex_digits b)" by (simp only: nm)
  then have "length (drop (?n a) (hex_digits a)) = length (drop (?n b) (hex_digits b))" by simp
  with n4 [of a] n4 [of b] have n: "?n a = ?n b" by (simp add: len)
  have "hex_digits a = take (?n a) (hex_digits a) @ drop (?n a) (hex_digits a)" by simp
  also have "\<dots> = take (?n b) (hex_digits b) @ drop (?n b) (hex_digits b)"
    using d pre [of a] pre [of b] n by simp
  also have "\<dots> = hex_digits b" by simp
  finally show ?thesis by (rule hex_digits_inj)
qed

lemma page_file_offset_eq:
  assumes "page_file p = page_file q" and "page_offset p = page_offset q"
    and "\<not> page_offset p <s 0" and "\<not> page_offset q <s 0"
  shows "p = q"
proof (rule page_split_eq)
  from assms(1) show "c_div p SLRU_PAGES_PER_SEGMENT = c_div q SLRU_PAGES_PER_SEGMENT"
    unfolding page_file_def by (rule SlruSimpleFileName_inj)
  from page_offset_apart [OF assms(3,4)] assms(2)
  show "c_mod p SLRU_PAGES_PER_SEGMENT = c_mod q SLRU_PAGES_PER_SEGMENT"
    by (auto simp: BLCKSZ_def)
qed

subsection \<open>Writes into a file\<close>

lemma file_write_at_length:
  "length (file_write_at buf off content) = max (length content) (off + length buf)"
  by (simp add: file_write_at_def)

lemma file_write_at_read:
  "take (length buf) (drop off (file_write_at buf off content)) = buf"
  by (simp add: file_write_at_def)

lemma file_write_at_other:
  assumes "off2 + n \<le> length content"
    and "off2 + n \<le> off \<or> off + length buf \<le> off2"
  shows "take n (drop off2 (file_write_at buf off content)) = take n (drop off2 content)"
proof -
  let ?X = "take off (content @ replicate (off - length content) 0)"
  have lx: "length ?X = off" by simp
  from assms(2) show ?thesis
  proof
    assume a: "off2 + n \<le> off"
    then have "take n (drop off2 (file_write_at buf off content)) = take n (drop off2 ?X)"
      unfolding file_write_at_def using lx by (simp add: drop_append)
    also have "\<dots> = take n (drop off2 (content @ replicate (off - length content) 0))"
      using a by (simp add: drop_take min_def)
    also have "\<dots> = take n (drop off2 content)"
      using assms(1) by simp
    finally show ?thesis .
  next
    assume a: "off + length buf \<le> off2"
    have "drop off2 (file_write_at buf off content) =
        drop (off2 - off - length buf) (drop (off + length buf) content)"
      unfolding file_write_at_def using lx a by simp
    also have "\<dots> = drop off2 content" using a by simp
    finally show ?thesis by simp
  qed
qed


subsection \<open>What a physical write leaves on disk\<close>

lemma take_fault_snd:
  "shared (snd (take_fault w)) = shared w" "directory (snd (take_fault w)) = directory w"
  "InRecovery (snd (take_fault w)) = InRecovery w"
  by (simp_all add: take_fault_def split: list.splits)

lemma Open_disk:
  assumes "MirroredFlatFile_Open name w = (ok, mfo, w')"
  shows "fileName mfo = name" and "file_content (directory w') n = file_content (directory w) n"
    and "shared w' = shared w"
proof -
  obtain f w0 where t: "take_fault w = (f, w0)" by (cases "take_fault w")
  from take_fault_snd [of w] t have s: "shared w0 = shared w" "directory w0 = directory w" by simp_all
  from assms t show "fileName mfo = name"
    by (auto simp: MirroredFlatFile_Open_def split: option.splits if_splits)
  from assms t s show "file_content (directory w') n = file_content (directory w) n"
    by (auto simp: MirroredFlatFile_Open_def file_content_def update_conv'
        split: option.splits if_splits)
  from assms t s show "shared w' = shared w"
    by (auto simp: MirroredFlatFile_Open_def split: option.splits if_splits)
qed

lemma SeekSet_disk:
  assumes "MirroredFlatFile_SeekSet mfo (page_offset q) w = (pos, w')"
  shows "directory w' = directory w" and "shared w' = shared w"
    and "pos = page_offset q \<Longrightarrow> \<not> page_offset q <s 0"
proof -
  obtain f w0 where t: "take_fault w = (f, w0)" by (cases "take_fault w")
  from take_fault_snd [of w] t have s: "shared w0 = shared w" "directory w0 = directory w" by simp_all
  from assms t s show "directory w' = directory w" "shared w' = shared w"
    by (auto simp: MirroredFlatFile_SeekSet_def split: option.splits if_splits)
  from assms t page_offset_not_minus1 [of q]
  show "pos = page_offset q \<Longrightarrow> \<not> page_offset q <s 0"
    by (auto simp: MirroredFlatFile_SeekSet_def split: option.splits if_splits)
qed

lemma Write_disk:
  assumes "MirroredFlatFile_Write mfo offset buf w = (ok, w')"
  shows "shared w' = shared w"
    and "n \<noteq> fileName mfo \<Longrightarrow> file_content (directory w') n = file_content (directory w) n"
    and "file_content (directory w') (fileName mfo) =
           (if ok then file_write_at buf (unat offset) (file_content (directory w) (fileName mfo))
            else file_content (directory w) (fileName mfo))"
proof -
  obtain f w0 where t: "take_fault w = (f, w0)" by (cases "take_fault w")
  from take_fault_snd [of w] t have s: "shared w0 = shared w" "directory w0 = directory w" by simp_all
  from assms t s show "shared w' = shared w"
    by (auto simp: MirroredFlatFile_Write_def split: option.splits)
  from assms t s
  show "n \<noteq> fileName mfo \<Longrightarrow> file_content (directory w') n = file_content (directory w) n"
    by (auto simp: MirroredFlatFile_Write_def file_content_def update_conv' split: option.splits)
  from assms t s
  show "file_content (directory w') (fileName mfo) =
           (if ok then file_write_at buf (unat offset) (file_content (directory w) (fileName mfo))
            else file_content (directory w) (fileName mfo))"
    by (auto simp: MirroredFlatFile_Write_def file_content_def update_conv' split: option.splits)
qed

lemma Flush_disk:
  assumes "MirroredFlatFile_Flush mfo w = (ok, w')"
  shows "directory w' = directory w" and "shared w' = shared w"
proof -
  obtain f w0 where t: "take_fault w = (f, w0)" by (cases "take_fault w")
  from take_fault_snd [of w] t have s: "shared w0 = shared w" "directory w0 = directory w" by simp_all
  from assms t s show "directory w' = directory w" "shared w' = shared w"
    by (auto simp: MirroredFlatFile_Flush_def split: option.splits)
qed

text \<open>
  The file of page \<open>q\<close> after the seek-write-fsync sequence: either as before, or with the
  slot's buffer written at the offset of \<open>q\<close>; the latter when the sequence ends well.
\<close>

definition page_written :: "int32 \<Rightarrow> byte list \<Rightarrow> (string \<times> byte list) list
    \<Rightarrow> (string \<times> byte list) list \<Rightarrow> bool" where
  "page_written q buf dir dir' \<longleftrightarrow>
     \<not> page_offset q <s 0 \<and>
     file_content dir' (page_file q) =
       file_write_at buf (unat (page_offset q)) (file_content dir (page_file q))"

lemma io_disk:
  assumes io: "SlruPhysicalWritePage_io ctl (page_offset q) slotno mfo st w = (ok, w')"
    and nm: "fileName mfo = page_file q"
  shows "n \<noteq> page_file q \<Longrightarrow> file_content (directory w') n = file_content (directory w) n"
    and "file_content (directory w') (page_file q) = file_content (directory w) (page_file q) \<or>
         page_written q (page_buffer (shared w) slotno) (directory w) (directory w')"
    and "ok \<Longrightarrow> page_written q (page_buffer (shared w) slotno) (directory w) (directory w')"
proof -
  obtain pos w1 where s: "MirroredFlatFile_SeekSet mfo (page_offset q) w = (pos, w1)"
    by (cases "MirroredFlatFile_SeekSet mfo (page_offset q) w")
  note sk = SeekSet_disk [OF s]
  let ?buf = "page_buffer (shared w) slotno"
  obtain ok2 w2 where wr: "MirroredFlatFile_Write mfo (page_offset q) ?buf w1 = (ok2, w2)"
    by (cases "MirroredFlatFile_Write mfo (page_offset q) ?buf w1")
  note wd = Write_disk [OF wr, unfolded nm sk]
  obtain ok3 w3 where fl: "MirroredFlatFile_Flush mfo w2 = (ok3, w3)"
    by (cases "MirroredFlatFile_Flush mfo w2")
  note fd = Flush_disk [OF fl]
  have d: "directory w' = directory w \<or> (pos = page_offset q \<and> directory w' = directory w2)"
    and k: "ok \<Longrightarrow> pos = page_offset q \<and> ok2 \<and> directory w' = directory w2"
    using io s wr fl sk fd
    by (auto simp: SlruPhysicalWritePage_io_def save_error_def split: if_splits bool.splits)
  show "n \<noteq> page_file q \<Longrightarrow> file_content (directory w') n = file_content (directory w) n"
    using d wd(2) by auto
  show "file_content (directory w') (page_file q) = file_content (directory w) (page_file q) \<or>
         page_written q ?buf (directory w) (directory w')"
    using d wd(3) sk(3) by (cases ok2) (auto simp: page_written_def)
  show "ok \<Longrightarrow> page_written q ?buf (directory w) (directory w')"
    using k wd(3) sk(3) by (auto simp: page_written_def)
qed

lemma PhysicalWrite_disk:
  assumes pw: "SlruPhysicalWritePage ctl q slotno None w = (ok, fd', w')"
  shows "n \<noteq> page_file q \<Longrightarrow> file_content (directory w') n = file_content (directory w) n"
    and "file_content (directory w') (page_file q) = file_content (directory w) (page_file q) \<or>
         page_written q (page_buffer (shared w) slotno) (directory w) (directory w')"
    and "ok \<Longrightarrow> page_written q (page_buffer (shared w) slotno) (directory w) (directory w')"
proof -
  let ?w0 = "SlruPhysicalWritePage_wal slotno w"
  have w0: "directory ?w0 = directory w" "shared ?w0 = shared w"
    by (simp_all add: SlruPhysicalWritePage_wal_def Let_def)
  obtain o1 mfo w1 where op: "MirroredFlatFile_Open (page_file q) ?w0 = (o1, mfo, w1)"
    by (cases "MirroredFlatFile_Open (page_file q) ?w0")
  note od = Open_disk [OF op, unfolded w0]
  obtain o2 w2 where io: "SlruPhysicalWritePage_io ctl (page_offset q) slotno mfo True w1 = (o2, w2)"
    by (cases "SlruPhysicalWritePage_io ctl (page_offset q) slotno mfo True w1")
  note iod = io_disk [OF io od(1), unfolded od(3)]
  have d: "directory w' = directory w1 \<or> (o1 \<and> w' = w2)" and k: "ok \<Longrightarrow> o1 \<and> o2 \<and> w' = w2"
    using pw op io
    by (auto simp: SlruPhysicalWritePage_def Let_def page_file_def page_offset_def save_error_def
        split: if_splits bool.splits)
  have pwr: "page_written q b (directory w1) dir' = page_written q b (directory w) dir'" for b dir'
    by (simp add: page_written_def od(2))
  show "n \<noteq> page_file q \<Longrightarrow> file_content (directory w') n = file_content (directory w) n"
    using d od(2) iod(1) by auto
  show "file_content (directory w') (page_file q) = file_content (directory w) (page_file q) \<or>
         page_written q (page_buffer (shared w) slotno) (directory w) (directory w')"
    using d od(2) iod(2) pwr by auto
  show "ok \<Longrightarrow> page_written q (page_buffer (shared w) slotno) (directory w) (directory w')"
    using k iod(3) pwr by auto
qed

subsection \<open>A page on disk while other pages are written\<close>

text \<open>
  Page \<open>p\<close> is on disk in full, at an offset the C code can seek to, and every buffer has
  the size of a page.
\<close>

definition page_stored :: "int32 \<Rightarrow> slru_world \<Rightarrow> bool" where
  "page_stored p w \<longleftrightarrow>
     length (page_on_disk (directory w) p) = BLCKSZ \<and> \<not> page_offset p <s 0 \<and>
     (\<forall>slotno. length (page_buffer (shared w) slotno) = BLCKSZ)"

lemma page_written_other:
  assumes st: "length (page_on_disk dir p) = BLCKSZ" "\<not> page_offset p <s 0"
    and len: "length buf = BLCKSZ" and ne: "p \<noteq> q"
    and oth: "\<And>n. n \<noteq> page_file q \<Longrightarrow> file_content dir' n = file_content dir n"
    and wr: "file_content dir' (page_file q) = file_content dir (page_file q) \<or>
             page_written q buf dir dir'"
  shows "page_on_disk dir' p = page_on_disk dir p"
proof (cases "page_file p = page_file q")
  case False
  with oth show ?thesis by (simp add: page_on_disk_def)
next
  case True
  from wr show ?thesis
  proof
    assume "file_content dir' (page_file q) = file_content dir (page_file q)"
    with True show ?thesis by (simp add: page_on_disk_def)
  next
    assume w: "page_written q buf dir dir'"
    then have q0: "\<not> page_offset q <s 0"
      and c: "file_content dir' (page_file q) =
                file_write_at buf (unat (page_offset q)) (file_content dir (page_file q))"
      by (simp_all add: page_written_def)
    have "page_offset p \<noteq> page_offset q"
      using page_file_offset_eq [OF True _ st(2) q0] ne by blast
    then have "c_mod p SLRU_PAGES_PER_SEGMENT \<noteq> c_mod q SLRU_PAGES_PER_SEGMENT"
      by (auto simp: page_offset_def)
    from page_offset_apart [OF st(2) q0 this] len
    have ap: "unat (page_offset p) + BLCKSZ \<le> unat (page_offset q) \<or>
              unat (page_offset q) + length buf \<le> unat (page_offset p)" by simp
    from st(1) have "unat (page_offset p) + BLCKSZ \<le> length (file_content dir (page_file p))"
      by (simp add: page_on_disk_def BLCKSZ_def)
    with True have "unat (page_offset p) + BLCKSZ \<le> length (file_content dir (page_file q))"
      by simp
    from file_write_at_other [OF this ap] c True show ?thesis
      by (simp add: page_on_disk_def)
  qed
qed

lemma page_written_this:
  assumes "page_written q buf dir dir'" and "length buf = BLCKSZ"
  shows "page_on_disk dir' q = buf"
  using assms file_write_at_read [of buf "unat (page_offset q)" "file_content dir (page_file q)"]
  by (simp add: page_on_disk_def page_written_def)

lemma WritePage_begin_frame:
  "page_buffer (shared (SimpleLruWritePage_begin slotno w)) = page_buffer (shared w)"
  "directory (SimpleLruWritePage_begin slotno w) = directory w"
  by (simp_all add: SimpleLruWritePage_begin_def Let_def set_page_dirty_def set_page_status_def
      LWLockAcquire_buffer_def LWLockRelease_ControlLock_def)

lemma WritePage_write_result:
  assumes "SimpleLruWritePage_write ctl q slotno None w = r"
  shows "directory (case r of Inl (e, w') \<Rightarrow> w' | Inr (fd, w') \<Rightarrow> w') = directory w \<or>
         (\<exists>ok fd' w5. SlruPhysicalWritePage ctl q slotno None (SimpleLruWritePage_begin slotno w) = (ok, fd', w5) \<and>
            directory (case r of Inl (e, w') \<Rightarrow> w' | Inr (fd, w') \<Rightarrow> w') = directory w5 \<and>
            (case r of Inl x \<Rightarrow> True | Inr x \<Rightarrow> ok))"
proof -
  obtain ok fd' w5 where
    pw: "SlruPhysicalWritePage ctl q slotno None (SimpleLruWritePage_begin slotno w) = (ok, fd', w5)"
    by (cases "SlruPhysicalWritePage ctl q slotno None (SimpleLruWritePage_begin slotno w)")
  from assms pw show ?thesis
    by (auto simp: SimpleLruWritePage_write_def Let_def set_page_status_def set_page_dirty_def
        LWLockRelease_buffer_def LWLockAcquire_ControlLock_def split: if_splits)
qed

lemma WritePage_write_other:
  assumes wr: "SimpleLruWritePage_write ctl q slotno None w = Inr (fd, w')"
    and st: "page_stored p w" and ne: "p \<noteq> q"
  shows "page_on_disk (directory w') p = page_on_disk (directory w) p"
proof -
  from WritePage_write_result [OF wr]
  show ?thesis
  proof
    assume "directory (case Inr (fd, w') of Inl (e, w') \<Rightarrow> w' | Inr (fd, w') \<Rightarrow> w') = directory w"
    then show ?thesis by simp
  next
    assume "\<exists>ok fd' w5. SlruPhysicalWritePage ctl q slotno None (SimpleLruWritePage_begin slotno w) = (ok, fd', w5) \<and>
            directory (case Inr (fd, w') of Inl (e, w') \<Rightarrow> w' | Inr (fd, w') \<Rightarrow> w') = directory w5 \<and>
            (case Inr (fd, w') of Inl x \<Rightarrow> True | Inr x \<Rightarrow> ok)"
    then obtain ok fd' w5 where
      pw: "SlruPhysicalWritePage ctl q slotno None (SimpleLruWritePage_begin slotno w) = (ok, fd', w5)"
      and d: "directory w' = directory w5" by auto
    note pd = PhysicalWrite_disk [OF pw, unfolded WritePage_begin_frame]
    from st have s: "length (page_on_disk (directory w) p) = BLCKSZ" "\<not> page_offset p <s 0"
      "length (page_buffer (shared w) slotno) = BLCKSZ"
      by (simp_all add: page_stored_def)
    from page_written_other [OF s(1,2,3) ne pd(1) pd(2)] d show ?thesis by simp
  qed
qed

lemma WritePage_write_this:
  assumes wr: "SimpleLruWritePage_write ctl q slotno None w = Inr (fd, w')"
    and v: "page_dirty (shared w) slotno" "page_status (shared w) slotno = SLRU_PAGE_VALID"
      "page_number (shared w) slotno = q"
    and len: "length (page_buffer (shared w) slotno) = BLCKSZ"
  shows "page_on_disk (directory w') q = page_buffer (shared w) slotno \<and> \<not> page_offset q <s 0"
proof -
  obtain ok fd' w5 where
    pw: "SlruPhysicalWritePage ctl q slotno None (SimpleLruWritePage_begin slotno w) = (ok, fd', w5)"
    by (cases "SlruPhysicalWritePage ctl q slotno None (SimpleLruWritePage_begin slotno w)")
  from wr v pw have ok and d: "directory w' = directory w5"
    by (auto simp: SimpleLruWritePage_write_def Let_def set_page_status_def set_page_dirty_def
        LWLockRelease_buffer_def LWLockAcquire_ControlLock_def split: if_splits)
  from PhysicalWrite_disk(3) [OF pw \<open>ok\<close>, unfolded WritePage_begin_frame]
  have w: "page_written q (page_buffer (shared w) slotno) (directory w) (directory w5)" .
  from page_written_this [OF w len] w d show ?thesis by (simp add: page_written_def)
qed


lemma FindPage_None_kept:
  assumes "SlruFindPage sh p = None"
    and "num_slots sh' = num_slots sh" and "page_number sh' = page_number sh"
    and "\<And>i. i < num_slots sh \<Longrightarrow> page_status sh i = SLRU_PAGE_EMPTY \<Longrightarrow>
           page_status sh' i = SLRU_PAGE_EMPTY"
  shows "SlruFindPage sh' p = None"
  using assms by (simp add: FindPage_None)

lemma page_stored_kept:
  assumes "page_stored p w" and "page_on_disk (directory w') p = page_on_disk (directory w) p"
    and "page_buffer (shared w') = page_buffer (shared w)"
  shows "page_stored p w'"
  using assms by (simp add: page_stored_def)

lemma select_stored:
  "SlruFindPage (shared w) p = None \<and> page_stored p w \<longrightarrow>
     (\<forall>slot w'. SlruSelectLRUPage ctl p w = Inr (slot, w') \<longrightarrow>
        page_on_disk (directory w') p = page_on_disk (directory w) p \<and>
        page_buffer (shared w') = page_buffer (shared w) \<and>
        SlruFindPage (shared w') p = None)"
proof (induction w rule: SlruSelectLRUPage_induct [where ctl = ctl and pageno = p])
  case (hit w slotno)
  then show ?case by simp
next
  case (empty w slotno best sh')
  note fr = pass_frame [OF empty(2)]
  from FindPage_None_kept [OF empty(1), of sh'] fr show ?case by simp
next
  case (oob w b d p sh')
  show ?case by simp
next
  case (clean w b d pn sh')
  note fr = pass_frame [OF clean(2)]
  from FindPage_None_kept [OF clean(1), of sh'] fr show ?case by simp
next
  case (write_fail w b d p sh' err)
  show ?case by simp
next
  case (write_ok w b d pn sh' fd w2)
  note fr = pass_frame [OF write_ok(2)]
  from pass_none [OF write_ok(2,3)] have b: "b < num_slots (shared w)" by simp
  let ?w0 = "w\<lparr>shared := sh'\<rparr>"
  have f0: "SlruFindPage sh' p = None"
    using FindPage_None_kept [OF write_ok(1), of sh'] fr by simp
  from write_ok(1) b fr write_ok(4) have ne: "p \<noteq> page_number sh' b"
    by (auto simp: FindPage_None)
  have wt: "SimpleLruWritePage_wait (page_number sh' b) b ?w0 = ?w0"
    by (simp add: WritePage_wait_eq write_ok(4))
  from write_ok(6)
  have wr: "SimpleLruWritePage_write ctl (page_number sh' b) b None ?w0 = Inr (fd, w2)"
    by (simp add: SimpleLruWritePage_def wt)
  note sh2 = select_write_shared [OF write_ok(4,5,6)]
  show ?case
  proof (intro impI)
    assume a: "SlruFindPage (shared w) p = None \<and> page_stored p w"
    then have st0: "page_stored p ?w0"
      using fr by (simp add: page_stored_def)
    from WritePage_write_other [OF wr st0 ne]
    have d2: "page_on_disk (directory w2) p = page_on_disk (directory w) p" by simp
    have b2: "page_buffer (shared w2) = page_buffer (shared w)" using sh2 fr by simp
    have f2: "SlruFindPage (shared w2) p = None"
      using FindPage_None_kept [OF f0, of "shared w2"] sh2 by simp
    from a page_stored_kept [OF _ d2 b2] have "page_stored p w2" by simp
    with write_ok(7) f2 d2 b2
    show "\<forall>slot w'. SlruSelectLRUPage ctl p w2 = Inr (slot, w') \<longrightarrow>
        page_on_disk (directory w') p = page_on_disk (directory w) p \<and>
        page_buffer (shared w') = page_buffer (shared w) \<and>
        SlruFindPage (shared w') p = None"
      by simp
  qed
next
  case (busy w b d pn sh')
  note fr = pass_frame [OF busy(2)]
  from pass_none [OF busy(2,3)] have b: "b < num_slots (shared w)" by simp
  let ?w0 = "w\<lparr>shared := sh'\<rparr>"
  let ?w2 = "SimpleLruWaitIO b ?w0"
  have f0: "SlruFindPage sh' p = None"
    using FindPage_None_kept [OF busy(1), of sh'] fr by simp
  have d2: "page_on_disk (directory ?w2) p = page_on_disk (directory w) p"
    by (simp add: WaitIO_other)
  have b2: "page_buffer (shared ?w2) = page_buffer (shared w)"
    using fr by (simp add: WaitIO_shared)
  have f2: "SlruFindPage (shared ?w2) p = None"
    by (rule FindPage_None_kept [OF f0]) (use busy(4) in \<open>auto simp: WaitIO_shared\<close>)
  show ?case
  proof (intro impI)
    assume a: "SlruFindPage (shared w) p = None \<and> page_stored p w"
    from a page_stored_kept [OF _ d2 b2] have "page_stored p ?w2" by simp
    with busy(5) f2 d2 b2
    show "\<forall>slot w'. SlruSelectLRUPage ctl p ?w2 = Inr (slot, w') \<longrightarrow>
        page_on_disk (directory w') p = page_on_disk (directory w) p \<and>
        page_buffer (shared w') = page_buffer (shared w) \<and>
        SlruFindPage (shared w') p = None"
      by simp
  qed
qed

subsection \<open>What a physical read finds\<close>

lemma BasicOpenFile_snd:
  "shared (snd (BasicOpenFile path w)) = shared w"
  "directory (snd (BasicOpenFile path w)) = directory w"
  using take_fault_snd [of w]
  by (cases "take_fault w"; auto simp: BasicOpenFile_def split: option.splits)+

lemma c_lseek_snd:
  "shared (snd (c_lseek off w)) = shared w" "directory (snd (c_lseek off w)) = directory w"
  using take_fault_snd [of w]
  by (cases "take_fault w"; auto simp: c_lseek_def split: option.splits)+

lemma c_close_snd: "shared (snd (c_close w)) = shared w"
  using take_fault_snd [of w]
  by (cases "take_fault w") (auto simp: c_close_def split: option.splits)

lemma c_read_result:
  assumes "c_read (page_file p) (page_offset p) w = (Some bytes, w')"
  shows "shared w' = shared w" and "bytes = page_on_disk (directory w) p"
proof -
  obtain f w0 where t: "take_fault w = (f, w0)" by (cases "take_fault w")
  from take_fault_snd [of w] t have s: "shared w0 = shared w" "directory w0 = directory w" by simp_all
  from assms t s show "shared w' = shared w"
    by (auto simp: c_read_def split: option.splits)
  from assms t s show "bytes = page_on_disk (directory w) p"
    by (auto simp: c_read_def page_on_disk_def file_content_def split: option.splits)
qed

lemma PhysicalRead_stored:
  assumes rd: "SlruPhysicalReadPage ctl p slotno w = (True, w')"
    and z: "page_on_disk (directory w) p = replicate BLCKSZ 0"
    and len: "length (page_buffer (shared w) slotno) = BLCKSZ"
  shows "page_buffer (shared w') slotno = replicate BLCKSZ 0"
proof -
  obtain o1 w1 where op: "BasicOpenFile (page_file p) w = (o1, w1)"
    by (cases "BasicOpenFile (page_file p) w")
  from BasicOpenFile_snd [of "page_file p" w] op
  have s1: "shared w1 = shared w" "directory w1 = directory w" by simp_all
  show ?thesis
  proof (cases o1)
    case False
    with rd op show ?thesis
      by (auto simp: SlruPhysicalReadPage_def Let_def page_file_def set_page_buffer_def
          split: if_splits)
  next
    case True
    obtain o2 w2 where sk: "c_lseek (page_offset p) w1 = (o2, w2)"
      by (cases "c_lseek (page_offset p) w1")
    from c_lseek_snd [of "page_offset p" w1] sk s1
    have s2: "shared w2 = shared w" "directory w2 = directory w" by simp_all
    obtain bs w3 where cr: "c_read (page_file p) (page_offset p) w2 = (bs, w3)"
      by (cases "c_read (page_file p) (page_offset p) w2")
    from rd op True sk cr obtain bytes where o2 and bs: "bs = Some bytes"
      by (cases o2; cases bs)
         (auto simp: SlruPhysicalReadPage_def Let_def page_file_def page_offset_def)
    from c_read_result [OF cr [unfolded bs]] s2 z
    have s3: "shared w3 = shared w" and bz: "bytes = replicate BLCKSZ 0" by simp_all
    let ?w4 = "set_page_buffer slotno (bytes @ drop (length bytes) (page_buffer (shared w3) slotno)) w3"
    have b4: "page_buffer (shared ?w4) slotno = replicate BLCKSZ 0"
      using bz len s3 by (simp add: set_page_buffer_def)
    obtain o5 w5 where cl: "c_close ?w4 = (o5, w5)" by (cases "c_close ?w4")
    from c_close_snd [of ?w4] cl have s5: "shared w5 = shared ?w4" by simp
    from rd op True sk \<open>o2\<close> cr bs bz cl have "w' = w5"
      by (auto simp: SlruPhysicalReadPage_def Let_def page_file_def page_offset_def
          split: if_splits bool.splits)
    with s5 b4 show ?thesis by simp
  qed
qed

lemma ReadPage_begin_disk:
  "directory (SimpleLruReadPage_begin p slotno w) = directory w"
  "page_buffer (shared (SimpleLruReadPage_begin p slotno w)) = page_buffer (shared w)"
  by (simp_all add: SimpleLruReadPage_begin_def Let_def set_page_number_def set_page_status_def
      set_page_dirty_def LWLockAcquire_buffer_def SlruRecentlyUsed_def LWLockRelease_ControlLock_def)

lemma ReadPage_read_stored:
  assumes rd: "SimpleLruReadPage_read ctl p slotno xid False w = Inr ((r, v), w')"
    and z: "page_on_disk (directory w) p = replicate BLCKSZ 0"
    and len: "length (page_buffer (shared w) slotno) = BLCKSZ"
  shows "r = int slotno \<and> page_number (shared w') slotno = p \<and>
         page_status (shared w') slotno = SLRU_PAGE_VALID \<and>
         page_buffer (shared w') slotno = replicate BLCKSZ 0"
proof -
  let ?w6 = "SimpleLruReadPage_begin p slotno w"
  obtain ok w7 where pr: "SlruPhysicalReadPage ctl p slotno ?w6 = (ok, w7)"
    by (cases "SlruPhysicalReadPage ctl p slotno ?w6")
  from rd pr have ok by (auto simp: SimpleLruReadPage_read_def Let_def split: if_splits)
  with pr have pr': "SlruPhysicalReadPage ctl p slotno ?w6 = (True, w7)" by simp
  have b7: "page_buffer (shared w7) slotno = replicate BLCKSZ 0"
    by (rule PhysicalRead_stored [OF pr']) (simp_all add: ReadPage_begin_disk z len)
  from PhysicalRead_frame [OF pr] have "page_number (shared w7) = page_number (shared ?w6)"
    by (auto simp: read_frame_def)
  then have n7: "page_number (shared w7) slotno = p"
    by (simp add: SimpleLruReadPage_begin_def Let_def set_page_number_def set_page_status_def
      set_page_dirty_def LWLockAcquire_buffer_def SlruRecentlyUsed_def LWLockRelease_ControlLock_def)
  from rd pr \<open>ok\<close> b7 n7 show ?thesis
    by (auto simp: SimpleLruReadPage_read_def Let_def set_page_status_def SimpleLruZeroLSNs_def
        LWLockRelease_buffer_def LWLockAcquire_ControlLock_def SlruRecentlyUsed_def
        split: if_splits)
qed

subsection \<open>The round trip of a zeroed page\<close>

lemma ZeroPage_tail_frame:
  "page_number (shared (SlruRecentlyUsed s w)) = page_number (shared w)"
  "page_status (shared (SlruRecentlyUsed s w)) = page_status (shared w)"
  "page_dirty (shared (SlruRecentlyUsed s w)) = page_dirty (shared w)"
  "page_buffer (shared (SlruRecentlyUsed s w)) = page_buffer (shared w)"
  "latest_page_number (shared (SlruRecentlyUsed s w)) = latest_page_number (shared w)"
  "page_number (shared (SimpleLruZeroLSNs s w)) = page_number (shared w)"
  "page_status (shared (SimpleLruZeroLSNs s w)) = page_status (shared w)"
  "page_dirty (shared (SimpleLruZeroLSNs s w)) = page_dirty (shared w)"
  "page_buffer (shared (SimpleLruZeroLSNs s w)) = page_buffer (shared w)"
  "latest_page_number (shared (SimpleLruZeroLSNs s w)) = latest_page_number (shared w)"
  by (simp_all add: SlruRecentlyUsed_def SimpleLruZeroLSNs_def Let_def)

text \<open>
  Claim C5. After \<open>SimpleLruZeroPage\<close> for page \<open>pageno\<close> the returned slot holds that page,
  VALID and dirty, its buffer is \<open>BLCKSZ\<close> zero bytes, and the page is the latest page.
  The round trip: when \<open>SimpleLruWritePage\<close> then writes the slot out, and later, in any
  state \<open>w3\<close> in which the page is in no buffer any more (evicted) while its bytes on disk are
  those the write left, \<open>SimpleLruReadPage\<close> returns a slot, that slot holds the page, VALID,
  with a buffer of \<open>BLCKSZ\<close> zero bytes. Buffers are \<open>BLCKSZ\<close> bytes long, as the pool
  allocates them.
\<close>

theorem SimpleLruZeroPage_round_trip:
  assumes z: "SimpleLruZeroPage ctl pageno w = Inr (slotno, w1)"
  shows "slotno < num_slots (shared w) \<and> page_number (shared w1) slotno = pageno \<and>
         page_status (shared w1) slotno = SLRU_PAGE_VALID \<and> page_dirty (shared w1) slotno \<and>
         page_buffer (shared w1) slotno = replicate BLCKSZ 0 \<and>
         latest_page_number (shared w1) = pageno \<and>
         (SimpleLruWritePage ctl slotno None w1 = Inr (fd, w2) \<and>
          SlruFindPage (shared w3) pageno = None \<and>
          page_on_disk (directory w3) pageno = page_on_disk (directory w2) pageno \<and>
          (\<forall>s. length (page_buffer (shared w3) s) = BLCKSZ) \<and>
          SimpleLruReadPage ctl pageno write_ok xid w3 = Inr ((r, v), w4) \<longrightarrow>
            0 \<le> r \<and> nat r < num_slots (shared w3) \<and>
            page_number (shared w4) (nat r) = pageno \<and>
            page_status (shared w4) (nat r) = SLRU_PAGE_VALID \<and>
            page_buffer (shared w4) (nat r) = replicate BLCKSZ 0)"
proof -
  from z obtain w0 where s: "SlruSelectLRUPage ctl pageno w = Inr (slotno, w0)"
    by (cases "SlruSelectLRUPage ctl pageno w") (auto simp: SimpleLruZeroPage_def Let_def)
  from select_result [of ctl pageno w] s have b: "slotno < num_slots (shared w)" by simp
  from z s have w1: "w1 = set_latest_page_number pageno (SimpleLruZeroLSNs slotno
      (set_page_buffer slotno (replicate BLCKSZ 0) (SlruRecentlyUsed slotno
        (set_page_dirty slotno True (set_page_status slotno SLRU_PAGE_VALID
          (set_page_number slotno pageno w0))))))"
    by (simp add: SimpleLruZeroPage_def Let_def)
  have post: "page_number (shared w1) slotno = pageno"
    "page_status (shared w1) slotno = SLRU_PAGE_VALID" "page_dirty (shared w1) slotno"
    "page_buffer (shared w1) slotno = replicate BLCKSZ 0" "latest_page_number (shared w1) = pageno"
    unfolding w1
    by (simp_all add: set_latest_page_number_def ZeroPage_tail_frame set_page_buffer_def
        set_page_dirty_def set_page_status_def set_page_number_def)
  have trip: "0 \<le> r \<and> nat r < num_slots (shared w3) \<and>
            page_number (shared w4) (nat r) = pageno \<and>
            page_status (shared w4) (nat r) = SLRU_PAGE_VALID \<and>
            page_buffer (shared w4) (nat r) = replicate BLCKSZ 0"
    if wr: "SimpleLruWritePage ctl slotno None w1 = Inr (fd, w2)"
      and f3: "SlruFindPage (shared w3) pageno = None"
      and d3: "page_on_disk (directory w3) pageno = page_on_disk (directory w2) pageno"
      and l3: "\<forall>s. length (page_buffer (shared w3) s) = BLCKSZ"
      and rd: "SimpleLruReadPage ctl pageno write_ok xid w3 = Inr ((r, v), w4)"
  proof -
    have wt: "SimpleLruWritePage_wait pageno slotno w1 = w1"
      by (simp add: WritePage_wait_eq post)
    from wr have "SimpleLruWritePage_write ctl pageno slotno None w1 = Inr (fd, w2)"
      by (simp add: SimpleLruWritePage_def post wt)
    from WritePage_write_this [OF this post(3,2,1)] post(4)
    have d2: "page_on_disk (directory w2) pageno = replicate BLCKSZ 0"
      and o: "\<not> page_offset pageno <s 0" by simp_all
    from d2 d3 o l3 have st3: "page_stored pageno w3" by (simp add: page_stored_def)
    from rd obtain slot w5 where s3: "SlruSelectLRUPage ctl pageno w3 = Inr (slot, w5)"
      by (cases "SlruSelectLRUPage ctl pageno w3")
         (auto simp: SimpleLruReadPage_def SimpleLruReadPage_Internal.simps [of ctl pageno write_ok xid False w3])
    from select_stored [of w3 pageno ctl] f3 st3 s3
    have d5: "page_on_disk (directory w5) pageno = page_on_disk (directory w3) pageno"
      and b5: "page_buffer (shared w5) = page_buffer (shared w3)"
      and f5: "SlruFindPage (shared w5) pageno = None" by simp_all
    from select_result [of ctl pageno w3] s3
    have sl: "slot < num_slots (shared w3)" and n5: "num_slots (shared w5) = num_slots (shared w3)"
      by (auto simp: same_pages_def)
    from f5 sl n5 have nh: "\<not> (page_number (shared w5) slot = pageno \<and>
        page_status (shared w5) slot \<noteq> SLRU_PAGE_EMPTY)"
      by (auto simp: FindPage_None)
    from rd s3 nh have "SimpleLruReadPage_read ctl pageno slot xid False w5 = Inr ((r, v), w4)"
      by (auto simp: SimpleLruReadPage_def SimpleLruReadPage_Internal.simps [of ctl pageno write_ok xid False w3])
    from ReadPage_read_stored [OF this] d5 d3 d2 b5 l3 sl show ?thesis by simp
  qed
  from b post trip show ?thesis by blast
qed

text \<open>
  A pool of two empty slots over an empty directory: page 32 is zeroed in slot 0 and
  written to segment 0001, the slot is emptied, and the page is read back.
\<close>

definition zero_page_start :: slru_world where
  "zero_page_start = (backend_start (SimpleLruInit 2 0))\<lparr>ControlLock := Some LW_EXCLUSIVE\<rparr>"

lemmas zero_run_defs =
  SimpleLruZeroPage_def set_latest_page_number_def SimpleLruReadPage_def c_lseek_def c_read_def
  c_close_def zero_page_start_def

theorem SimpleLruZeroPage_round_trip_witness:
  "(case SimpleLruZeroPage clog_ctl 32 zero_page_start of
      Inl x \<Rightarrow> False
    | Inr (slotno, w1) \<Rightarrow>
        slotno = 0 \<and> page_number (shared w1) 0 = 32 \<and>
        page_status (shared w1) 0 = SLRU_PAGE_VALID \<and> page_dirty (shared w1) 0 \<and>
        page_buffer (shared w1) 0 = replicate BLCKSZ 0 \<and> latest_page_number (shared w1) = 32 \<and>
        (case SimpleLruWritePage clog_ctl 0 None w1 of
           Inl x \<Rightarrow> False
         | Inr (fd, w2) \<Rightarrow>
             directory w2 = [(''0001'', replicate BLCKSZ 0)] \<and>
             SlruFindPage (shared (set_page_status 0 SLRU_PAGE_EMPTY w2)) 32 = None \<and>
             (case SimpleLruReadPage clog_ctl 32 False 0 (set_page_status 0 SLRU_PAGE_EMPTY w2) of
                Inl x \<Rightarrow> False
              | Inr ((r, v), w4) \<Rightarrow>
                  r = 0 \<and> page_number (shared w4) 0 = 32 \<and>
                  page_status (shared w4) 0 = SLRU_PAGE_VALID \<and>
                  page_buffer (shared w4) 0 = replicate BLCKSZ 0)))"
proof -
  have "\<exists>w1. SimpleLruZeroPage clog_ctl 32 zero_page_start = Inr (0, w1) \<and>
      (\<exists>fd w2. SimpleLruWritePage clog_ctl 0 None w1 = Inr (fd, w2) \<and>
         directory w2 = [(''0001'', replicate BLCKSZ 0)] \<and>
         SlruFindPage (shared (set_page_status 0 SLRU_PAGE_EMPTY w2)) 32 = None \<and>
         (\<forall>s. length (page_buffer (shared (set_page_status 0 SLRU_PAGE_EMPTY w2)) s) = BLCKSZ) \<and>
         (\<exists>v w4. SimpleLruReadPage clog_ctl 32 False 0 (set_page_status 0 SLRU_PAGE_EMPTY w2) =
            Inr ((0, v), w4)))"
    by (simp add: zero_run_defs read_run_defs run_defs)
  then obtain w1 where zz: "SimpleLruZeroPage clog_ctl 32 zero_page_start = Inr (0, w1) \<and>
      (\<exists>fd w2. SimpleLruWritePage clog_ctl 0 None w1 = Inr (fd, w2) \<and>
         directory w2 = [(''0001'', replicate BLCKSZ 0)] \<and>
         SlruFindPage (shared (set_page_status 0 SLRU_PAGE_EMPTY w2)) 32 = None \<and>
         (\<forall>s. length (page_buffer (shared (set_page_status 0 SLRU_PAGE_EMPTY w2)) s) = BLCKSZ) \<and>
         (\<exists>v w4. SimpleLruReadPage clog_ctl 32 False 0 (set_page_status 0 SLRU_PAGE_EMPTY w2) =
            Inr ((0, v), w4)))" ..
  note z = conjunct1 [OF zz]
  from conjunct2 [OF zz] obtain fd w2 where
    ww: "SimpleLruWritePage clog_ctl 0 None w1 = Inr (fd, w2) \<and>
         directory w2 = [(''0001'', replicate BLCKSZ 0)] \<and>
         SlruFindPage (shared (set_page_status 0 SLRU_PAGE_EMPTY w2)) 32 = None \<and>
         (\<forall>s. length (page_buffer (shared (set_page_status 0 SLRU_PAGE_EMPTY w2)) s) = BLCKSZ) \<and>
         (\<exists>v w4. SimpleLruReadPage clog_ctl 32 False 0 (set_page_status 0 SLRU_PAGE_EMPTY w2) =
            Inr ((0, v), w4))"
    by (elim exE)
  note wr = conjunct1 [OF ww]
  note d = conjunct1 [OF conjunct2 [OF ww]]
  note f = conjunct1 [OF conjunct2 [OF conjunct2 [OF ww]]]
  note l = conjunct1 [OF conjunct2 [OF conjunct2 [OF conjunct2 [OF ww]]]]
  from conjunct2 [OF conjunct2 [OF conjunct2 [OF conjunct2 [OF ww]]]] obtain v w4 where
    rd: "SimpleLruReadPage clog_ctl 32 False 0 (set_page_status 0 SLRU_PAGE_EMPTY w2) =
            Inr ((0, v), w4)"
    by (elim exE)
  have e: "page_on_disk (directory (set_page_status 0 SLRU_PAGE_EMPTY w2)) 32 =
      page_on_disk (directory w2) 32"
    by (simp add: set_page_status_def)
  note t = SimpleLruZeroPage_round_trip [OF z, where fd = fd and ?w2.0 = w2
      and ?w3.0 = "set_page_status 0 SLRU_PAGE_EMPTY w2" and write_ok = False and xid = 0
      and r = 0 and v = v and ?w4.0 = w4]
  from t have p1: "page_number (shared w1) 0 = 32 \<and> page_status (shared w1) 0 = SLRU_PAGE_VALID \<and>
     page_dirty (shared w1) 0 \<and> page_buffer (shared w1) 0 = replicate BLCKSZ 0 \<and>
     latest_page_number (shared w1) = 32"
    by (elim conjE) (intro conjI)
  from t wr f e l rd
  have p4: "page_number (shared w4) 0 = 32 \<and> page_status (shared w4) 0 = SLRU_PAGE_VALID \<and>
     page_buffer (shared w4) 0 = replicate BLCKSZ 0"
    by (elim conjE) simp
  show ?thesis
    by (simp only: z wr rd sum.case prod.case p1 p4 d f simp_thms)
qed

end
